theory Spec2Isabelle
  imports Complex_Main
begin

section \<open>The face enrolment page (UI/src/views/Faces/Add.vue)\<close>

text \<open>
  The script of the page keeps its session in a handful of module variables (Vue refs and
  plain \<^verbatim>\<open>let\<close> bindings), talks to the backend through \<^verbatim>\<open>invoke\<close>, reports to the user
  through \<^verbatim>\<open>ElMessage\<close> and drives its frame loop with \<^verbatim>\<open>requestAnimationFrame\<close>.
  The model passes one record through every handler: the module variables, followed by
  three logs of the effects (messages shown, backend commands issued, animation frames
  requested and not yet run) and by the activations of \<^verbatim>\<open>streamLoop\<close> that are suspended at
  their \<^verbatim>\<open>await\<close>.

  Strings are byte strings (the UTF-8 encoding of the JavaScript text). The similarity score
  is a finite binary64 number, and the arithmetic on it rounds as binary64 does. The
  integer-valued numbers (the slider value, the floored confidence) are integers.
  \<^verbatim>\<open>console.log\<close> and \<^verbatim>\<open>console.error\<close> are not modelled.
\<close>

subsection \<open>Data\<close>

text \<open>A message box of \<^verbatim>\<open>ElMessage\<close>, by severity.\<close>

datatype notice = MsgError string | MsgWarning string | MsgSuccess string

text \<open>
  The backend commands the script invokes. \<^verbatim>\<open>referenceBase64\<close> is
  \<^verbatim>\<open>rawImageForSystem.split(',')[1]\<close>, which is \<^verbatim>\<open>undefined\<close> (here \<open>None\<close>) when the
  image text holds no comma.
\<close>

datatype command =
    OpenCamera
  | StopCamera
  | CheckFaceFromCamera
  | VerifyFace "string option"
  | SaveFaceRegistration string "string option"

text \<open>
  What a \<^verbatim>\<open>catch\<close> block of the script can receive: the value a backend command was
  rejected with, or the \<^verbatim>\<open>TypeError\<close> the runtime throws when a method of \<^verbatim>\<open>undefined\<close> is
  called.
\<close>

datatype 'e thrown = Rejection 'e | TypeError

text \<open>
  A finite binary64 number, \<open>mantissa * 2 ^ exponent\<close>. The pairs that denote binary64
  numbers are those of \<open>is_binary64\<close>: 53 bits of mantissa, and an exponent between that of
  the smallest subnormal and that of the largest finite number. \<open>number_value\<close> is the
  real number a pair denotes.
\<close>

datatype number = Number (mantissa: int) (exponent: int)

definition is_binary64 :: "number \<Rightarrow> bool" where
  "is_binary64 x =
     (\<bar>mantissa x\<bar> < 2 ^ 53 \<and> - 1074 \<le> exponent x \<and> exponent x \<le> 971)"

definition number_value :: "number \<Rightarrow> real" where
  "number_value x =
     (if 0 \<le> exponent x then of_int (mantissa x) * 2 ^ nat (exponent x)
      else of_int (mantissa x) / 2 ^ nat (- exponent x))"

text \<open>
  The \<^verbatim>\<open>data\<close> object of a detection reply, with the three fields the script reads. The
  display image is only ever tested for truthiness and shown, so a display image the
  backend leaves out reads as the empty string. The raw image has a method called on it: a
  raw image the backend leaves out is \<^verbatim>\<open>undefined\<close>, here \<open>None\<close>.
\<close>

record res_data =
  display_base64 :: string
  raw_base64 :: "string option"
  score :: number

text \<open>The branch of \<^verbatim>\<open>streamLoop\<close> an activation is suspended in.\<close>

datatype branch = Enroll | Verify

record page =
  faceName :: string
  threshold :: int
  capturedImage :: string
  rawImageForSystem :: "string option"
  isCameraStreaming :: bool
  isLoopRunning :: bool
  verificationMode :: bool
  verifyingStreamImage :: string
  matchConfidence :: int
  isProcessing :: bool
  username :: string
  password :: string
  notices :: "notice list"
  invoked :: "command list"
  frames :: nat
  awaiting :: "branch list"

text \<open>
  The module variables as the script initialises them, with no effect so far. The lookup
  of the current user name that the script issues while the page is set up, which only
  fills in \<open>username\<close>, is left out.
\<close>

definition initial_page :: page where
  "initial_page =
     \<lparr>faceName = [], threshold = 50, capturedImage = [], rawImageForSystem = Some [],
      isCameraStreaming = False, isLoopRunning = False, verificationMode = False,
      verifyingStreamImage = [], matchConfidence = 0, isProcessing = False,
      username = [], password = [],
      notices = [], invoked = [], frames = 0, awaiting = []\<rparr>"

subsection \<open>Effects\<close>

definition ElMessage_error :: "string \<Rightarrow> page \<Rightarrow> page" where
  "ElMessage_error info s = s\<lparr>notices := notices s @ [MsgError info]\<rparr>"

definition ElMessage_warning :: "string \<Rightarrow> page \<Rightarrow> page" where
  "ElMessage_warning info s = s\<lparr>notices := notices s @ [MsgWarning info]\<rparr>"

definition invoke :: "command \<Rightarrow> page \<Rightarrow> page" where
  "invoke c s = s\<lparr>invoked := invoked s @ [c]\<rparr>"

definition requestAnimationFrame :: "page \<Rightarrow> page" where
  "requestAnimationFrame s = s\<lparr>frames := Suc (frames s)\<rparr>"

text \<open>The detection calls among the commands issued so far.\<close>

fun is_detection :: "command \<Rightarrow> bool" where
  "is_detection CheckFaceFromCamera = True"
| "is_detection (VerifyFace r) = True"
| "is_detection c = False"

definition detection_calls :: "page \<Rightarrow> nat" where
  "detection_calls s = length (filter is_detection (invoked s))"

subsection \<open>String helpers\<close>

text \<open>\<^verbatim>\<open>String.prototype.includes\<close>: the needle occurs as a contiguous run.\<close>

fun starts_with :: "string \<Rightarrow> string \<Rightarrow> bool" where
  "starts_with s [] = True"
| "starts_with [] (c # t) = False"
| "starts_with (x # s) (c # t) = (x = c \<and> starts_with s t)"

fun js_includes :: "string \<Rightarrow> string \<Rightarrow> bool" where
  "js_includes [] t = starts_with [] t"
| "js_includes (x # s) t = (starts_with (x # s) t \<or> js_includes s t)"

text \<open>\<^verbatim>\<open>String.prototype.split\<close> on a one-character separator.\<close>

fun js_split :: "char \<Rightarrow> string \<Rightarrow> string list" where
  "js_split sep [] = [[]]"
| "js_split sep (x # s) =
     (if x = sep then [] # js_split sep s
      else (case js_split sep s of
              p # ps \<Rightarrow> (x # p) # ps
            | [] \<Rightarrow> [[x]]))"

text \<open>\<^verbatim>\<open>raw.split(',')[1]\<close> for a string \<open>raw\<close>; reading past the array gives \<^verbatim>\<open>undefined\<close>.\<close>

definition referenceBase64 :: "string \<Rightarrow> string option" where
  "referenceBase64 raw =
     (case js_split (CHR '','') raw of
        p # q # ps \<Rightarrow> Some q
      | _ \<Rightarrow> None)"

text \<open>A value that is a string or \<^verbatim>\<open>undefined\<close> is falsy when undefined or empty.\<close>

fun falsy :: "string option \<Rightarrow> bool" where
  "falsy None = True"
| "falsy (Some t) = (t = [])"

text \<open>
  The text the loop recognises the transient no-face error by: the six ideographs
  U+672A U+68C0 U+6D4B U+5230 U+4EBA U+8138, in UTF-8.
\<close>

definition noFaceText :: string where
  "noFaceText =
     [CHR 0xE6, CHR 0x9C, CHR 0xAA, CHR 0xE6, CHR 0xA3, CHR 0x80,
      CHR 0xE6, CHR 0xB5, CHR 0x8B, CHR 0xE5, CHR 0x88, CHR 0xB0,
      CHR 0xE4, CHR 0xBA, CHR 0xBA, CHR 0xE8, CHR 0x84, CHR 0xB8]"

subsection \<open>Binary64 multiplication by one hundred\<close>

text \<open>
  The product of a binary64 number and 100 is the exact product rounded to 53 bits of
  mantissa, to nearest with ties to even; a result of magnitude \<open>2 ^ 1024\<close> or more
  overflows to an infinity, here \<open>None\<close>. The exact product of \<open>m * 2 ^ e\<close> and 100 is
  \<open>(m * 100) * 2 ^ e\<close>. \<open>excess n\<close> is the number of low bits by which \<open>n\<close> is longer than
  53 bits, and \<open>round_half_even M k\<close> drops the \<open>k\<close> low bits of \<open>M\<close>. Since the exponent only
  grows, the result never falls below the subnormal range.
\<close>

function excess :: "nat \<Rightarrow> nat" where
  "excess n = (if n < 2 ^ 53 then 0 else Suc (excess (n div 2)))"
  by pat_completeness auto
termination
  by (relation "measure id") auto

declare excess.simps [simp del]

definition round_half_even :: "int \<Rightarrow> nat \<Rightarrow> int" where
  "round_half_even M k =
     (let q = M div 2 ^ k; r = M mod 2 ^ k in
      if 2 ^ k < 2 * r \<or> (2 * r = 2 ^ k \<and> odd q) then q + 1 else q)"

definition times_hundred :: "number \<Rightarrow> number option" where
  "times_hundred x =
     (let M = mantissa x * 100;
          k = excess (nat \<bar>M\<bar>);
          p = Number (sgn M * round_half_even \<bar>M\<bar> k) (exponent x + int k)
      in if 2 ^ 1024 \<le> \<bar>number_value p\<bar> then None else Some p)"

text \<open>
  The rounded product of \<open>m * 2 ^ e\<close> and 100 as a real number, for a positive \<open>m\<close>
  and before the test for overflow.
\<close>

definition rounded_product :: "int \<Rightarrow> int \<Rightarrow> real" where
  "rounded_product m e =
     of_int (round_half_even (m * 100) (excess (nat (m * 100))))
       * 2 powr (of_int (e + int (excess (nat (m * 100)))))"

subsection \<open>The verification scorer\<close>

text \<open>
  Lines 94 to 99 of \<^verbatim>\<open>streamLoop\<close>:
  \<^verbatim>\<open>if (rawScore > 0) matchConfidence = Math.floor(Math.min(100, (rawScore / 1.0) * 100));
  else matchConfidence = 0;\<close>
  Division by \<^verbatim>\<open>1.0\<close> is exact in binary64, so the quotient is \<open>rawScore\<close> itself. The
  product is positive: when it overflows it is \<^verbatim>\<open>Infinity\<close>, and \<^verbatim>\<open>Math.min\<close> gives 100.
  \<^verbatim>\<open>Math.min\<close> and \<^verbatim>\<open>Math.floor\<close> do not round.
\<close>

definition scoreToConfidence :: "number \<Rightarrow> int" where
  "scoreToConfidence rawScore =
     (if number_value rawScore > 0 then
        (case times_hundred rawScore of
           None \<Rightarrow> 100
         | Some p \<Rightarrow> \<lfloor>min 100 (number_value p)\<rfloor>)
      else 0)"

text \<open>The formula as the specification words it, in exact arithmetic, for comparison.\<close>

definition spec_confidence :: "real \<Rightarrow> int" where
  "spec_confidence similarity_score =
     (if similarity_score > 0 then \<lfloor>min 100 (max 0 similarity_score * 100)\<rfloor> else 0)"

text \<open>
  The class binding of the confidence tag in the template (line 211):
  \<^verbatim>\<open>matchConfidence > (threshold) ? 'match' : 'mismatch'\<close>.
\<close>

definition confidenceTagClass :: "page \<Rightarrow> string" where
  "confidenceTagClass s =
     (if matchConfidence s > threshold s then ''match'' else ''mismatch'')"

subsection \<open>The frame loop\<close>

text \<open>
  \<^verbatim>\<open>streamLoop\<close> is an async function with one \<^verbatim>\<open>await\<close>. \<open>streamLoop_begin\<close> is the part
  that runs when the function is called (directly, or as an animation frame callback): the
  test of the loop flag, the choice of branch and the backend call, after which the
  activation is suspended. In the verify branch the argument of the call is computed first:
  when \<^verbatim>\<open>rawImageForSystem\<close> is \<^verbatim>\<open>undefined\<close>, \<^verbatim>\<open>split\<close> throws inside the \<^verbatim>\<open>try\<close>, no call is
  made and the \<^verbatim>\<open>catch\<close> block runs at once. \<open>streamLoop_resume\<close> is the part that runs
  when the awaited call settles, with \<open>Inr\<close> a reply and \<open>Inl\<close> a rejection, which lands
  in the \<^verbatim>\<open>catch\<close> block. A reply always carries its \<^verbatim>\<open>data\<close> object, so reading it does not
  throw. The helper \<^verbatim>\<open>formatObjectString\<close> of utils/function is the parameter \<open>fmt\<close>.
\<close>

definition streamLoop_catch :: "('e thrown \<Rightarrow> string) \<Rightarrow> 'e thrown \<Rightarrow> page \<Rightarrow> page" where
  "streamLoop_catch fmt error s =
     (let info = fmt error in
      if js_includes info noFaceText then requestAnimationFrame s
      else ElMessage_error info s)"

definition streamLoop_begin :: "('e thrown \<Rightarrow> string) \<Rightarrow> page \<Rightarrow> page" where
  "streamLoop_begin fmt s =
     (if \<not> isLoopRunning s then s
      else if \<not> verificationMode s then
        (invoke CheckFaceFromCamera s)\<lparr>awaiting := awaiting s @ [Enroll]\<rparr>
      else
        (case rawImageForSystem s of
           None \<Rightarrow> streamLoop_catch fmt TypeError s
         | Some raw \<Rightarrow>
             (invoke (VerifyFace (referenceBase64 raw)) s)
               \<lparr>awaiting := awaiting s @ [Verify]\<rparr>))"

definition streamLoop_resume ::
  "('e thrown \<Rightarrow> string) \<Rightarrow> branch \<Rightarrow> 'e + res_data \<Rightarrow> page \<Rightarrow> page" where
  "streamLoop_resume fmt br reply s =
     (case reply of
        Inl error \<Rightarrow> streamLoop_catch fmt (Rejection error) s
      | Inr res \<Rightarrow>
          (case br of
             Enroll \<Rightarrow>
               requestAnimationFrame
                 (s\<lparr>capturedImage := display_base64 res,
                    rawImageForSystem := raw_base64 res\<rparr>)
           | Verify \<Rightarrow>
               (let s1 = (if display_base64 res \<noteq> []
                          then s\<lparr>verifyingStreamImage := display_base64 res\<rparr>
                          else s)
                in requestAnimationFrame
                     (s1\<lparr>matchConfidence := scoreToConfidence (score res)\<rparr>))))"

text \<open>
  The events of one loop: an animation frame callback runs (\<open>animationFrame\<close>, nothing
  when none is pending), and the oldest suspended activation receives the settlement of
  its detection call (\<open>settle\<close>, nothing when none is suspended).
\<close>

definition animationFrame :: "('e thrown \<Rightarrow> string) \<Rightarrow> page \<Rightarrow> page" where
  "animationFrame fmt s =
     (if frames s = 0 then s else streamLoop_begin fmt (s\<lparr>frames := frames s - 1\<rparr>))"

definition settle :: "('e thrown \<Rightarrow> string) \<Rightarrow> 'e + res_data \<Rightarrow> page \<Rightarrow> page" where
  "settle fmt reply s =
     (case awaiting s of
        [] \<Rightarrow> s
      | br # rest \<Rightarrow> streamLoop_resume fmt br reply (s\<lparr>awaiting := rest\<rparr>))"

subsection \<open>Camera handlers\<close>

text \<open>
  A handler that invokes one backend command takes the settlement of that command as its
  argument \<open>reply\<close> (\<open>Inr\<close> resolved, \<open>Inl\<close> rejected) and runs the matching
  \<^verbatim>\<open>then\<close> or \<^verbatim>\<open>catch\<close> callback; nothing else is taken to run between the call and
  its settlement. A call of \<^verbatim>\<open>streamLoop()\<close> inside a callback runs
  \<open>streamLoop_begin\<close>: the activation it starts is left suspended in \<open>awaiting\<close>.
\<close>

definition startCamera :: "('e thrown \<Rightarrow> string) \<Rightarrow> 'e + unit \<Rightarrow> page \<Rightarrow> page" where
  "startCamera fmt reply s =
     (let s1 = invoke OpenCamera s in
      case reply of
        Inr u \<Rightarrow>
          streamLoop_begin fmt (s1\<lparr>isCameraStreaming := True, isLoopRunning := True\<rparr>)
      | Inl error \<Rightarrow> ElMessage_error (fmt (Rejection error)) s1)"

text \<open>
  \<^verbatim>\<open>stopCamera\<close> clears the loop flag, then asks the backend to release the camera. The
  promise it returns is resolved (\<open>True\<close>) or rejected (\<open>False\<close>, after the error is shown).
\<close>

definition stopCamera_begin :: "page \<Rightarrow> page" where
  "stopCamera_begin s = invoke StopCamera (s\<lparr>isLoopRunning := False\<rparr>)"

definition stopCamera ::
  "('e thrown \<Rightarrow> string) \<Rightarrow> 'e + unit \<Rightarrow> page \<Rightarrow> bool \<times> page" where
  "stopCamera fmt reply s =
     (let s1 = stopCamera_begin s in
      case reply of
        Inr u \<Rightarrow> (True, s1)
      | Inl error \<Rightarrow> (False, ElMessage_error (fmt (Rejection error)) s1))"

definition confirmCapture :: "('e thrown \<Rightarrow> string) \<Rightarrow> 'e + unit \<Rightarrow> page \<Rightarrow> page" where
  "confirmCapture fmt reply s =
     (case stopCamera fmt reply s of
        (True, s1) \<Rightarrow> s1\<lparr>isCameraStreaming := False\<rparr>
      | (False, s1) \<Rightarrow> s1)"

definition stopCapture :: "('e thrown \<Rightarrow> string) \<Rightarrow> 'e + unit \<Rightarrow> page \<Rightarrow> page" where
  "stopCapture fmt reply s =
     (case stopCamera fmt reply s of
        (True, s1) \<Rightarrow>
          s1\<lparr>isCameraStreaming := False, capturedImage := [],
             rawImageForSystem := Some []\<rparr>
      | (False, s1) \<Rightarrow> s1)"

definition toggleVerification ::
  "('e thrown \<Rightarrow> string) \<Rightarrow> 'e + unit \<Rightarrow> page \<Rightarrow> page" where
  "toggleVerification fmt reply s =
     (let s1 = s\<lparr>verificationMode := \<not> verificationMode s\<rparr> in
      if verificationMode s1 then
        (let s2 = invoke OpenCamera s1 in
         case reply of
           Inr u \<Rightarrow> streamLoop_begin fmt (s2\<lparr>isLoopRunning := True\<rparr>)
         | Inl error \<Rightarrow> ElMessage_error (fmt (Rejection error)) s2)
      else
        (case stopCamera fmt reply s1 of
           (True, s2) \<Rightarrow> s2\<lparr>verifyingStreamImage := []\<rparr>
         | (False, s2) \<Rightarrow> s2))"

subsection \<open>Saving\<close>

text \<open>
  The two warnings of \<^verbatim>\<open>handleSave\<close>, in UTF-8: "please fill in the complete account and
  password" and "please capture a face image first".
\<close>

definition warnCredentials :: string where
  "warnCredentials =
     [CHR 0xE8, CHR 0xAF, CHR 0xB7, CHR 0xE5, CHR 0xA1, CHR 0xAB, CHR 0xE5, CHR 0x86,
      CHR 0x99, CHR 0xE5, CHR 0xAE, CHR 0x8C, CHR 0xE6, CHR 0x95, CHR 0xB4, CHR 0xE7,
      CHR 0x9A, CHR 0x84, CHR 0xE8, CHR 0xB4, CHR 0xA6, CHR 0xE5, CHR 0x8F, CHR 0xB7,
      CHR 0xE5, CHR 0xAF, CHR 0x86, CHR 0xE7, CHR 0xA0, CHR 0x81, CHR 0xE4, CHR 0xBF,
      CHR 0xA1, CHR 0xE6, CHR 0x81, CHR 0xAF]"

definition warnNoImage :: string where
  "warnNoImage =
     [CHR 0xE8, CHR 0xAF, CHR 0xB7, CHR 0xE5, CHR 0x85, CHR 0x88, CHR 0xE5, CHR 0xBD,
      CHR 0x95, CHR 0xE5, CHR 0x85, CHR 0xA5, CHR 0xE9, CHR 0x9D, CHR 0xA2, CHR 0xE5,
      CHR 0xAE, CHR 0xB9, CHR 0xE5, CHR 0x9B, CHR 0xBE, CHR 0xE7, CHR 0x89, CHR 0x87]"

text \<open>
  \<^verbatim>\<open>handleSave\<close>. A JavaScript string is falsy exactly when it is empty, so
  \<^verbatim>\<open>!authForm.username\<close> is \<open>username s = []\<close> and \<^verbatim>\<open>faceName.value || ''\<close> is the
  alias itself, the empty string when it is empty. \<^verbatim>\<open>!rawImageForSystem\<close> holds for the
  empty string and for \<^verbatim>\<open>undefined\<close>. The \<^verbatim>\<open>finally\<close> callback runs after either
  settlement.
\<close>

definition handleSave :: "('e thrown \<Rightarrow> string) \<Rightarrow> 'e + 'r \<Rightarrow> page \<Rightarrow> page" where
  "handleSave fmt reply s =
     (if username s = [] \<or> password s = [] then ElMessage_warning warnCredentials s
      else
        (case rawImageForSystem s of
           None \<Rightarrow> ElMessage_warning warnNoImage s
         | Some raw \<Rightarrow>
             if raw = [] then ElMessage_warning warnNoImage s
             else
               (let s1 = s\<lparr>isProcessing := True\<rparr>;
                    s2 = invoke (SaveFaceRegistration
                                   (if faceName s1 \<noteq> [] then faceName s1 else [])
                                   (referenceBase64 raw)) s1;
                    s3 = (case reply of
                            Inr result \<Rightarrow> s2
                          | Inl error \<Rightarrow> ElMessage_error (fmt (Rejection error)) s2)
                in s3\<lparr>isProcessing := False\<rparr>)))"

subsection \<open>The controls the template renders\<close>

text \<open>
  The start button sits under \<^verbatim>\<open>v-if="!verificationMode"\<close> and
  \<^verbatim>\<open>v-if="!isCameraStreaming"\<close>; the verification toggle under
  \<^verbatim>\<open>v-if="capturedImage && !isCameraStreaming"\<close>. A click on a control that is not rendered
  cannot happen: \<open>None\<close>.
\<close>

definition startControlShown :: "page \<Rightarrow> bool" where
  "startControlShown s = (\<not> verificationMode s \<and> \<not> isCameraStreaming s)"

definition toggleControlShown :: "page \<Rightarrow> bool" where
  "toggleControlShown s = (capturedImage s \<noteq> [] \<and> \<not> isCameraStreaming s)"

definition click_startCamera ::
  "('e thrown \<Rightarrow> string) \<Rightarrow> 'e + unit \<Rightarrow> page \<Rightarrow> page option" where
  "click_startCamera fmt reply s =
     (if startControlShown s then Some (startCamera fmt reply s) else None)"

definition click_toggleVerification ::
  "('e thrown \<Rightarrow> string) \<Rightarrow> 'e + unit \<Rightarrow> page \<Rightarrow> page option" where
  "click_toggleVerification fmt reply s =
     (if toggleControlShown s then Some (toggleVerification fmt reply s) else None)"

subsection \<open>Runs of one loop\<close>

text \<open>
  What can happen to a loop that has been started once: animation frames run, detection
  calls settle, and the user confirms or cancels the capture (either of which clears the
  loop flag through \<^verbatim>\<open>stopCamera\<close>).
\<close>

datatype 'e event =
    Frame
  | Reply "'e + res_data"
  | Confirm "'e + unit"
  | Cancel "'e + unit"

fun step :: "('e thrown \<Rightarrow> string) \<Rightarrow> 'e event \<Rightarrow> page \<Rightarrow> page" where
  "step fmt Frame s = animationFrame fmt s"
| "step fmt (Reply r) s = settle fmt r s"
| "step fmt (Confirm r) s = confirmCapture fmt r s"
| "step fmt (Cancel r) s = stopCapture fmt r s"

fun run :: "('e thrown \<Rightarrow> string) \<Rightarrow> 'e event list \<Rightarrow> page \<Rightarrow> page" where
  "run fmt [] s = s"
| "run fmt (ev # evs) s = run fmt evs (step fmt ev s)"

text \<open>The work a loop still has ahead: frames requested and calls in flight.\<close>

definition pending :: "page \<Rightarrow> nat" where
  "pending s = frames s + length (awaiting s)"

subsection \<open>The camera collaborator\<close>

text \<open>
  Modelled from the spec: the camera behind the \<^verbatim>\<open>open_camera\<close> command is backend code
  that is not among the sources. These are the two errors sections 4.1, 6 and 7 of the
  specification name for it.
\<close>

datatype camera_error = ResourceBusyError | DeviceError

text \<open>
  Modelled from the spec: the state of that camera, which the sources do not show: the
  number of handles held on it (section 3: held exclusively by the running session) and
  whether the hardware is available (section 4.1).
\<close>

record camera =
  handles :: nat
  available :: bool

text \<open>
  Modelled from the spec: \<^verbatim>\<open>open_camera\<close>, which is missing from the sources, by sections
  4.1 and 6 of the specification: the request fails with \<^verbatim>\<open>ResourceBusyError\<close> if the
  camera is already held and with \<^verbatim>\<open>DeviceError\<close> if the hardware is unavailable;
  otherwise it acquires the camera.
\<close>

definition open_camera :: "camera \<Rightarrow> (camera_error + unit) \<times> camera" where
  "open_camera c =
     (if 0 < handles c then (Inl ResourceBusyError, c)
      else if \<not> available c then (Inl DeviceError, c)
      else (Inr (), c\<lparr>handles := Suc (handles c)\<rparr>))"

text \<open>\<^verbatim>\<open>startCamera\<close> of the page, with its request answered by this camera.\<close>

definition startCamera_on ::
  "(camera_error thrown \<Rightarrow> string) \<Rightarrow> page \<times> camera \<Rightarrow> page \<times> camera" where
  "startCamera_on fmt sc =
     (case sc of (s, c) \<Rightarrow>
        (case open_camera c of (reply, c') \<Rightarrow> (startCamera fmt reply s, c')))"

subsection \<open>Example sessions\<close>

text \<open>
  A formatter for examples: a rejection is a text and is shown as it is. Then a camera
  capture that has delivered one frame and waits for its next animation frame, and the same
  session after the user confirmed the capture and the loop drained.
\<close>

fun sample_format :: "string thrown \<Rightarrow> string" where
  "sample_format (Rejection info) = info"
| "sample_format TypeError = ''TypeError: Cannot read properties of undefined''"

definition sample_frame :: res_data where
  "sample_frame =
     \<lparr>display_base64 = ''data:image/jpeg;base64,DDDD'',
      raw_base64 = Some ''data:image/jpeg;base64,RRRR'',
      score = Number 0 0\<rparr>"

definition streaming_page :: page where
  "streaming_page =
     settle sample_format (Inr sample_frame)
       (startCamera sample_format (Inr ()) initial_page)"

definition captured_page :: page where
  "captured_page =
     animationFrame sample_format (confirmCapture sample_format (Inr ()) streaming_page)"



text \<open>
  Verification switched on from the captured page, off again while its first call is still
  in flight, and on once more. The camera is free each time it is requested.
\<close>

definition verify_on_page :: page where
  "verify_on_page = toggleVerification sample_format (Inr ()) captured_page"

definition verify_off_page :: page where
  "verify_off_page = toggleVerification sample_format (Inr ()) verify_on_page"

definition verify_again_page :: page where
  "verify_again_page = toggleVerification sample_format (Inr ()) verify_off_page"

text \<open>A reply of \<^verbatim>\<open>verify_face\<close>, and a formatter for the errors of the camera.\<close>

definition sample_match :: res_data where
  "sample_match =
     \<lparr>display_base64 = ''data:image/jpeg;base64,LLLL'',
      raw_base64 = None,
      score = Number 0 0\<rparr>"

fun camera_format :: "camera_error thrown \<Rightarrow> string" where
  "camera_format (Rejection ResourceBusyError) = ''ResourceBusyError''"
| "camera_format (Rejection DeviceError) = ''DeviceError''"
| "camera_format TypeError = ''TypeError''"

text \<open>The binary64 numbers nearest to 0.42 and to 0.91, and the numbers 1 and 2.5.\<close>

definition score_042 :: number where
  "score_042 = Number 7566047373982433 (- 54)"

definition score_091 :: number where
  "score_091 = Number 8196551321814303 (- 53)"

definition score_one :: number where
  "score_one = Number 4503599627370496 (- 52)"

definition score_two_and_a_half :: number where
  "score_two_and_a_half = Number 5629499534213120 (- 51)"

section \<open>Properties\<close>

subsection \<open>Rounding\<close>

lemma excess_upper: "n < 2 ^ (53 + excess n)"
proof (induction n rule: excess.induct)
  case (1 n)
  show ?case
  proof (cases "n < 2 ^ 53")
    case True
    then show ?thesis by (simp add: excess.simps)
  next
    case False
    then have unf: "excess n = Suc (excess (n div 2))"
      by (simp add: excess.simps [of n])
    from False 1 have "n div 2 < 2 ^ (53 + excess (n div 2))" by simp
    then have "n < 2 * 2 ^ (53 + excess (n div 2))" by linarith
    then show ?thesis by (simp only: unf add_Suc_right power_Suc)
  qed
qed

lemma excess_lower: "0 < excess n \<Longrightarrow> 2 ^ (52 + excess n) \<le> n"
proof (induction n rule: excess.induct)
  case (1 n)
  show ?case
  proof (cases "n < 2 ^ 53")
    case True
    with 1(2) show ?thesis by (simp add: excess.simps [of n])
  next
    case False
    note big = False
    then have unf: "excess n = Suc (excess (n div 2))"
      by (simp add: excess.simps [of n])
    show ?thesis
    proof (cases "0 < excess (n div 2)")
      case True
      with 1(1) big have "2 ^ (52 + excess (n div 2)) \<le> n div 2" by simp
      then have "2 * 2 ^ (52 + excess (n div 2)) \<le> n" by linarith
      then show ?thesis by (simp only: unf add_Suc_right power_Suc)
    next
      case False
      then have "excess n = Suc 0" using unf by simp
      with big show ?thesis by simp
    qed
  qed
qed

lemma rhe_ge: "N * 2 ^ k \<le> M \<Longrightarrow> N \<le> round_half_even M k"
proof -
  assume a: "N * 2 ^ k \<le> M"
  have "N = (N * 2 ^ k) div 2 ^ k" by simp
  also have "\<dots> \<le> M div 2 ^ k" using a by (intro zdiv_mono1) simp_all
  finally have "N \<le> M div 2 ^ k" .
  then show ?thesis by (simp add: round_half_even_def Let_def)
qed

lemma rhe_le: "M \<le> N * 2 ^ k \<Longrightarrow> round_half_even M k \<le> N"
proof -
  assume a: "M \<le> N * 2 ^ k"
  have pos: "(0::int) < 2 ^ k" by simp
  have split: "M = M div 2 ^ k * 2 ^ k + M mod 2 ^ k"
    by (simp add: div_mult_mod_eq)
  show ?thesis
  proof (cases "M mod 2 ^ k = 0")
    case True
    with split have "M div 2 ^ k * 2 ^ k \<le> N * 2 ^ k" using a by simp
    then have "M div 2 ^ k \<le> N" using pos by simp
    with True show ?thesis by (simp add: round_half_even_def Let_def)
  next
    case False
    have "0 \<le> M mod 2 ^ k" by simp
    with False have "0 < M mod 2 ^ k" by linarith
    with split have "M div 2 ^ k * 2 ^ k < M" by linarith
    with a have "M div 2 ^ k * 2 ^ k < N * 2 ^ k" by linarith
    then have "M div 2 ^ k < N" using pos by simp
    then show ?thesis by (simp add: round_half_even_def Let_def)
  qed
qed

lemma rhe_zero: "round_half_even M 0 = M"
  by (simp add: round_half_even_def)

lemma two_powr_nonneg: "0 \<le> i \<Longrightarrow> (2::real) powr (of_int i) = 2 ^ nat i"
  by (metis powr_realpow of_nat_nat zero_less_numeral)

lemma two_powr_neg: "i \<le> 0 \<Longrightarrow> (2::real) powr (of_int i) = 1 / 2 ^ nat (- i)"
  using two_powr_nonneg [of "- i"] powr_minus_divide [of "2::real" "of_int (- i)"] by simp

lemma two_powr_split: "(2::real) powr (of_int e) = 2 powr (of_int (e + int k)) / 2 ^ k"
proof -
  have "(2::real) powr (of_int (e + int k)) = 2 powr (of_int e) * 2 powr (of_int (int k))"
    by (simp add: powr_add)
  also have "(2::real) powr (of_int (int k)) = 2 ^ k"
    using two_powr_nonneg [of "int k"] by simp
  finally show ?thesis by simp
qed

lemma number_value_powr: "number_value (Number m e) = of_int m * 2 powr (of_int e)"
proof (cases "0 \<le> e")
  case True
  then show ?thesis by (simp add: number_value_def two_powr_nonneg)
next
  case False
  then show ?thesis by (simp add: number_value_def two_powr_neg)
qed

lemma rounded_ge:
  fixes M n e :: int
  defines "k \<equiv> excess (nat M)"
  assumes pos: "0 < M" and small: "n \<le> 2 ^ 52"
    and le: "of_int n \<le> of_int M * (2::real) powr (of_int e)"
  shows "of_int n \<le> of_int (round_half_even M k) * (2::real) powr (of_int (e + int k))"
proof (cases "e + int k \<le> 0")
  case True
  define d :: int where "d = 2 ^ nat (- (e + int k))"
  have dpos: "0 < d" by (simp add: d_def)
  have g: "(2::real) powr (of_int (e + int k)) = 1 / of_int d"
    using two_powr_neg [OF True] by (simp add: d_def)
  have "(2::real) powr (of_int e) = 1 / (of_int d * 2 ^ k)"
    using two_powr_split [of e k] g by simp
  with le have "of_int n \<le> of_int M / (of_int d * (2::real) ^ k)" by simp
  then have "of_int n * (of_int d * (2::real) ^ k) \<le> of_int M"
    using dpos by (simp add: pos_le_divide_eq)
  then have "of_int (n * d * 2 ^ k) \<le> (of_int M :: real)" by (simp add: mult.assoc)
  then have "n * d * 2 ^ k \<le> M" by (simp only: of_int_le_iff)
  then have "n * d \<le> round_half_even M k" by (rule rhe_ge)
  then have "of_int (n * d) \<le> (of_int (round_half_even M k) :: real)"
    by (simp only: of_int_le_iff)
  then have "of_int n \<le> of_int (round_half_even M k) / (of_int d :: real)"
    using dpos by (simp add: pos_le_divide_eq)
  with g show ?thesis by simp
next
  case False
  then have gpos: "0 < e + int k" by simp
  show ?thesis
  proof (cases "k = 0")
    case True
    with le show ?thesis by (simp add: rhe_zero)
  next
    case False
    then have "0 < excess (nat M)" by (simp add: k_def)
    then have "2 ^ (52 + k) \<le> nat M" unfolding k_def by (rule excess_lower)
    then have "int (2 ^ (52 + k)) \<le> M" using pos by linarith
    then have "(2 ^ 52) * 2 ^ k \<le> M" by (simp add: power_add)
    then have half: "2 ^ 52 \<le> round_half_even M k" by (rule rhe_ge)
    with small have "n \<le> round_half_even M k" by linarith
    then have a: "(of_int n :: real) \<le> of_int (round_half_even M k)" by simp
    have "(2::real) powr (of_int (e + int k)) = 2 ^ nat (e + int k)"
      using gpos by (intro two_powr_nonneg) simp
    moreover have "(1::real) \<le> 2 ^ nat (e + int k)" by simp
    ultimately have "(1::real) \<le> 2 powr (of_int (e + int k))" by (simp only:)
    moreover have "(0::real) \<le> of_int (round_half_even M k)"
      using half by simp
    ultimately have "of_int (round_half_even M k) * 1
        \<le> of_int (round_half_even M k) * (2::real) powr (of_int (e + int k))"
      by (intro mult_left_mono)
    with a show ?thesis by simp
  qed
qed

lemma rounded_le:
  fixes M n e :: int
  defines "k \<equiv> excess (nat M)"
  assumes pos: "0 < M" and small: "n < 2 ^ 53"
    and le: "of_int M * (2::real) powr (of_int e) \<le> of_int n"
  shows "of_int (round_half_even M k) * (2::real) powr (of_int (e + int k)) \<le> of_int n"
proof (cases "e + int k \<le> 0")
  case True
  define d :: int where "d = 2 ^ nat (- (e + int k))"
  have dpos: "0 < d" by (simp add: d_def)
  have g: "(2::real) powr (of_int (e + int k)) = 1 / of_int d"
    using two_powr_neg [OF True] by (simp add: d_def)
  have "(2::real) powr (of_int e) = 1 / (of_int d * 2 ^ k)"
    using two_powr_split [of e k] g by simp
  with le have "of_int M / (of_int d * (2::real) ^ k) \<le> of_int n" by simp
  then have "of_int M \<le> of_int n * (of_int d * (2::real) ^ k)"
    using dpos by (simp add: pos_divide_le_eq)
  then have "(of_int M :: real) \<le> of_int (n * d * 2 ^ k)" by (simp add: mult.assoc)
  then have "M \<le> n * d * 2 ^ k" by (simp only: of_int_le_iff)
  then have "round_half_even M k \<le> n * d" by (rule rhe_le)
  then have "(of_int (round_half_even M k) :: real) \<le> of_int (n * d)"
    by (simp only: of_int_le_iff)
  then have "of_int (round_half_even M k) / (of_int d :: real) \<le> of_int n"
    using dpos by (simp add: pos_divide_le_eq)
  with g show ?thesis by simp
next
  case False
  then have gpos: "0 < e + int k" by simp
  show ?thesis
  proof (cases "k = 0")
    case True
    with le show ?thesis by (simp add: rhe_zero)
  next
    case False
    then have "0 < excess (nat M)" by (simp add: k_def)
    then have "2 ^ (52 + k) \<le> nat M" unfolding k_def by (rule excess_lower)
    then have "int (2 ^ (52 + k)) \<le> M" using pos by linarith
    then have big: "(2 ^ 52 * 2 ^ k :: real) \<le> of_int M"
      by (metis of_int_le_iff of_int_of_nat_eq of_nat_power of_nat_numeral power_add)
    have two: "(2::real) \<le> 2 powr (of_int (e + int k))"
    proof -
      from gpos have "1 \<le> nat (e + int k)" by simp
      then have "(2::real) ^ 1 \<le> 2 ^ nat (e + int k)"
        by (intro power_increasing) simp_all
      moreover have "(2::real) powr (of_int (e + int k)) = 2 ^ nat (e + int k)"
        using gpos by (intro two_powr_nonneg) simp
      ultimately show ?thesis by (simp only: power_one_right)
    qed
    have pe: "(2::real) powr (of_int e) = 2 powr (of_int (e + int k)) / 2 ^ k"
      by (rule two_powr_split)
    have "(2 ^ 53 :: real) = 2 ^ 52 * 2 ^ k * (2 / 2 ^ k)" by simp
    also have "\<dots> \<le> of_int M * (2 / 2 ^ k)"
      using big by (intro mult_right_mono) simp_all
    also have "\<dots> \<le> of_int M * (2 powr (of_int (e + int k)) / 2 ^ k)"
      using pos two by (intro mult_left_mono divide_right_mono) simp_all
    also have "\<dots> = of_int M * 2 powr (of_int e)" by (simp only: pe)
    also have "\<dots> \<le> of_int n" by (rule le)
    finally have "(2 ^ 53 :: real) \<le> of_int n" .
    then have "(2 ^ 53 :: int) \<le> n" by (metis of_int_le_iff of_int_numeral of_int_power)
    with small show ?thesis by simp
  qed
qed

subsection \<open>The scorer against exact arithmetic\<close>

lemma value_pos_iff: "0 < number_value (Number m e) \<longleftrightarrow> 0 < m"
  by (simp add: number_value_powr zero_less_mult_iff)

lemma product_value:
  "number_value (Number m e) * 100 = of_int (m * 100) * 2 powr (of_int e)"
  by (simp add: number_value_powr)

lemma times_hundred_pos:
  assumes "0 < m"
  shows "times_hundred (Number m e) =
           (if 2 ^ 1024 \<le> rounded_product m e then None
            else Some (Number (round_half_even (m * 100) (excess (nat (m * 100))))
                         (e + int (excess (nat (m * 100))))))"
    and "0 \<le> rounded_product m e"
proof -
  let ?M = "m * 100"
  let ?k = "excess (nat ?M)"
  let ?R = "round_half_even ?M ?k"
  from assms have M: "0 < ?M" by simp
  then have sg: "sgn ?M = 1" and ab: "\<bar>?M\<bar> = ?M" by simp_all
  have "0 * 2 ^ ?k \<le> ?M" using M by simp
  then have R: "0 \<le> ?R" by (rule rhe_ge)
  then show nonneg: "0 \<le> rounded_product m e"
    by (simp add: rounded_product_def)
  have v: "number_value (Number ?R (e + int ?k)) = rounded_product m e"
    by (simp only: number_value_powr rounded_product_def)
  show "times_hundred (Number m e) =
           (if 2 ^ 1024 \<le> rounded_product m e then None
            else Some (Number ?R (e + int ?k)))"
    using nonneg
    by (simp only: times_hundred_def Let_def number.sel sg ab mult_1 v abs_of_nonneg)
qed

lemma confidence_pos:
  assumes "0 < m"
  shows "scoreToConfidence (Number m e) =
           (if 2 ^ 1024 \<le> rounded_product m e then 100
            else \<lfloor>min 100 (rounded_product m e)\<rfloor>)"
proof -
  have v: "number_value (Number (round_half_even (m * 100) (excess (nat (m * 100))))
             (e + int (excess (nat (m * 100))))) = rounded_product m e"
    by (simp only: number_value_powr rounded_product_def)
  from assms have "0 < number_value (Number m e)" by (simp add: value_pos_iff)
  then show ?thesis
    by (simp add: scoreToConfidence_def times_hundred_pos(1) [OF assms] v)
qed

lemma confidence_lower:
  assumes "0 < m"
  shows "\<lfloor>min 100 (number_value (Number m e) * 100)\<rfloor> \<le> scoreToConfidence (Number m e)"
proof -
  let ?P = "number_value (Number m e) * 100"
  let ?n = "\<lfloor>min 100 ?P\<rfloor>"
  have n100: "?n \<le> 100"
  proof -
    have "?n \<le> \<lfloor>100::real\<rfloor>" by (intro floor_mono) simp
    then show ?thesis by simp
  qed
  have "of_int ?n \<le> min 100 ?P" by (rule of_int_floor_le)
  then have nP: "of_int ?n \<le> of_int (m * 100) * (2::real) powr (of_int e)"
    by (simp add: product_value)
  from assms have M: "0 < m * 100" by simp
  from n100 have small: "?n \<le> 2 ^ 52" by simp
  have fl: "of_int ?n \<le> rounded_product m e"
    unfolding rounded_product_def by (rule rounded_ge [OF M small nP])
  show ?thesis
  proof (cases "2 ^ 1024 \<le> rounded_product m e")
    case True
    with n100 show ?thesis by (simp add: confidence_pos [OF assms])
  next
    case False
    from fl n100 have "of_int ?n \<le> min 100 (rounded_product m e)" by simp
    then have "?n \<le> \<lfloor>min 100 (rounded_product m e)\<rfloor>" by (simp only: le_floor_iff)
    with False show ?thesis by (simp add: confidence_pos [OF assms])
  qed
qed

lemma floor_min_100: "\<lfloor>min 100 (y::real)\<rfloor> \<le> 100"
proof -
  have "\<lfloor>min 100 y\<rfloor> \<le> \<lfloor>100::real\<rfloor>" by (intro floor_mono) simp
  then show ?thesis by simp
qed

lemma confidence_le_100: "scoreToConfidence x \<le> 100"
proof (cases "0 < number_value x")
  case True
  show ?thesis
  proof (cases "times_hundred x")
    case None
    with True show ?thesis by (simp add: scoreToConfidence_def)
  next
    case (Some p)
    with True floor_min_100 [of "number_value p"] show ?thesis
      by (simp add: scoreToConfidence_def)
  qed
next
  case False
  then show ?thesis by (simp add: scoreToConfidence_def)
qed

lemma confidence_upper:
  assumes "0 < m"
  shows "scoreToConfidence (Number m e) \<le> \<lceil>min 100 (number_value (Number m e) * 100)\<rceil>"
proof (cases "100 \<le> number_value (Number m e) * 100")
  case True
  then have "min 100 (number_value (Number m e) * 100) = 100" by simp
  then show ?thesis using confidence_le_100 [of "Number m e"] by simp
next
  case False
  let ?P = "number_value (Number m e) * 100"
  let ?n = "\<lceil>?P\<rceil>"
  from False have mn: "min 100 ?P = ?P" by simp
  from False have n100: "?n \<le> 100" by (simp add: ceiling_le_iff)
  then have small: "?n < 2 ^ 53" by simp
  have "?P \<le> of_int ?n" by (rule le_of_int_ceiling)
  then have Pn: "of_int (m * 100) * (2::real) powr (of_int e) \<le> of_int ?n"
    by (simp add: product_value)
  from assms have M: "0 < m * 100" by simp
  have fl: "rounded_product m e \<le> of_int ?n"
    unfolding rounded_product_def by (rule rounded_le [OF M small Pn])
  with n100 have "rounded_product m e \<le> 100" by linarith
  then have no: "\<not> 2 ^ 1024 \<le> rounded_product m e" by simp
  have "\<lfloor>min 100 (rounded_product m e)\<rfloor> \<le> \<lfloor>rounded_product m e\<rfloor>"
    by (intro floor_mono) simp
  also have "\<dots> \<le> ?n" using fl by (simp add: floor_le_iff)
  finally show ?thesis using no by (simp add: confidence_pos [OF assms] mn)
qed

lemma confidence_bounds:
  assumes "0 < number_value x"
  shows "\<lfloor>min 100 (number_value x * 100)\<rfloor> \<le> scoreToConfidence x"
    and "scoreToConfidence x \<le> \<lceil>min 100 (number_value x * 100)\<rceil>"
proof -
  obtain m e where x: "x = Number m e" by (cases x)
  with assms have m: "0 < m" by (simp add: value_pos_iff)
  show "\<lfloor>min 100 (number_value x * 100)\<rfloor> \<le> scoreToConfidence x"
    unfolding x by (rule confidence_lower [OF m])
  show "scoreToConfidence x \<le> \<lceil>min 100 (number_value x * 100)\<rceil>"
    unfolding x by (rule confidence_upper [OF m])
qed

lemma ceiling_le_floor_Suc: "\<lceil>y::real\<rceil> \<le> \<lfloor>y\<rfloor> + 1"
  by (simp add: ceiling_le_iff)

lemma confidence_nonpos: "number_value x \<le> 0 \<Longrightarrow> scoreToConfidence x = 0"
  by (simp add: scoreToConfidence_def)

lemma confidence_near_spec:
  "spec_confidence (number_value x) \<le> scoreToConfidence x
   \<and> scoreToConfidence x \<le> spec_confidence (number_value x) + 1"
proof (cases "0 < number_value x")
  case True
  then have sp: "spec_confidence (number_value x) = \<lfloor>min 100 (number_value x * 100)\<rfloor>"
    by (simp add: spec_confidence_def max_def)
  from confidence_bounds [OF True] ceiling_le_floor_Suc [of "min 100 (number_value x * 100)"]
  show ?thesis unfolding sp by linarith
next
  case False
  then show ?thesis by (simp add: confidence_nonpos spec_confidence_def)
qed

lemma confidence_above_one: "1 < number_value x \<Longrightarrow> scoreToConfidence x = 100"
proof -
  assume a: "1 < number_value x"
  then have pos: "0 < number_value x" by simp
  from a have "min 100 (number_value x * 100) = 100" by simp
  with confidence_bounds(1) [OF pos] have "100 \<le> scoreToConfidence x" by simp
  with confidence_le_100 [of x] show ?thesis by simp
qed

lemma confidence_unit:
  assumes "0 < number_value x" "number_value x \<le> 1"
  shows "scoreToConfidence x = \<lfloor>number_value x * 100\<rfloor>
         \<or> scoreToConfidence x = \<lfloor>number_value x * 100\<rfloor> + 1"
proof -
  from assms have mn: "min 100 (number_value x * 100) = number_value x * 100" by simp
  from confidence_bounds [OF assms(1)] ceiling_le_floor_Suc [of "number_value x * 100"]
  show ?thesis unfolding mn by linarith
qed

lemma resume_verify_confidence:
  "matchConfidence (streamLoop_resume fmt Verify (Inr res) s) = scoreToConfidence (score res)"
  by (simp add: streamLoop_resume_def requestAnimationFrame_def Let_def)

text \<open>Evaluation of the scorer at the example scores.\<close>

lemma excess_examples:
  "excess 756604737398243300 = 7" "excess 819655132181430300 = 7"
  "excess 450359962737049600 = 6" "excess 562949953421312000 = 6"
  by (simp_all add: excess.simps)

lemma confidence_042: "scoreToConfidence score_042 = 42"
  by (simp add: score_042_def scoreToConfidence_def times_hundred_def Let_def
        excess_examples round_half_even_def number_value_def)

lemma confidence_091: "scoreToConfidence score_091 = 91"
  by (simp add: score_091_def scoreToConfidence_def times_hundred_def Let_def
        excess_examples round_half_even_def number_value_def)

lemma confidence_one: "scoreToConfidence score_one = 100"
  by (simp add: score_one_def scoreToConfidence_def times_hundred_def Let_def
        excess_examples round_half_even_def number_value_def)

lemma confidence_two_and_a_half: "scoreToConfidence score_two_and_a_half = 100"
  by (simp add: score_two_and_a_half_def scoreToConfidence_def times_hundred_def Let_def
        excess_examples round_half_even_def number_value_def)

text \<open>
  Claim C1 as stated gives \<open>floor (score * 100)\<close> for every score in \<open>(0, 1]\<close>. The
  score below is the binary64 number nearest to 0.42, which is slightly less than 0.42: in
  exact arithmetic its hundredfold is slightly less than 42 and the formula gives 41. In
  binary64 the product rounds to 42 exactly, and 42 is what the page stores.
\<close>

theorem C1_exact_floor_counterexample:
  "is_binary64 score_042
   \<and> 0 < number_value score_042 \<and> number_value score_042 \<le> 1
   \<and> number_value score_042 < 42 / 100
   \<and> times_hundred score_042 = Some (Number 5910974510923776 (- 47))
   \<and> number_value (Number 5910974510923776 (- 47)) = 42
   \<and> scoreToConfidence score_042 = 42
   \<and> \<lfloor>number_value score_042 * 100\<rfloor> = 41
   \<and> spec_confidence (number_value score_042) = 41"
  by (simp add: score_042_def is_binary64_def number_value_def spec_confidence_def
        scoreToConfidence_def times_hundred_def Let_def excess_examples round_half_even_def)

text \<open>
  Claim C1, amended. For every finite binary64 score the confidence the verify branch of
  the frame loop stores is \<open>0\<close> when the score is not positive. When the score is positive it
  is \<open>floor (min 100 p)\<close>, where \<open>p\<close> is the binary64 product of the score and 100, that is,
  the exact product rounded to nearest, or infinity on overflow. It therefore lies between
  the floor and the ceiling of \<open>min 100 (score * 100)\<close> taken in exact arithmetic: it is the
  specification's value or one more. For a score in \<open>(0, 1]\<close> it is \<open>floor (score * 100)\<close>,
  or that plus one when the product rounds up to an integer, and never more than \<open>100\<close>;
  for a score above \<open>1\<close> it is exactly \<open>100\<close>.
\<close>

theorem C1_confidence_rounded:
  "matchConfidence (streamLoop_resume fmt Verify (Inr res) s) = scoreToConfidence (score res)
   \<and> (number_value x \<le> 0 \<longrightarrow> scoreToConfidence x = 0)
   \<and> (0 < number_value x \<longrightarrow>
        scoreToConfidence x
          = (case times_hundred x of
               None \<Rightarrow> 100
             | Some p \<Rightarrow> \<lfloor>min 100 (number_value p)\<rfloor>)
        \<and> \<lfloor>min 100 (number_value x * 100)\<rfloor> \<le> scoreToConfidence x
        \<and> scoreToConfidence x \<le> \<lceil>min 100 (number_value x * 100)\<rceil>)
   \<and> spec_confidence (number_value x) \<le> scoreToConfidence x
   \<and> scoreToConfidence x \<le> spec_confidence (number_value x) + 1
   \<and> (0 < number_value x \<and> number_value x \<le> 1 \<longrightarrow>
        (scoreToConfidence x = \<lfloor>number_value x * 100\<rfloor>
         \<or> scoreToConfidence x = \<lfloor>number_value x * 100\<rfloor> + 1)
        \<and> scoreToConfidence x \<le> 100)
   \<and> (1 < number_value x \<longrightarrow> scoreToConfidence x = 100)"
proof (intro conjI impI)
  show "matchConfidence (streamLoop_resume fmt Verify (Inr res) s)
          = scoreToConfidence (score res)"
    by (rule resume_verify_confidence)
next
  assume "number_value x \<le> 0"
  then show "scoreToConfidence x = 0" by (rule confidence_nonpos)
next
  assume "0 < number_value x"
  then show "scoreToConfidence x
          = (case times_hundred x of
               None \<Rightarrow> 100
             | Some p \<Rightarrow> \<lfloor>min 100 (number_value p)\<rfloor>)"
    by (simp add: scoreToConfidence_def)
next
  assume "0 < number_value x"
  then show "\<lfloor>min 100 (number_value x * 100)\<rfloor> \<le> scoreToConfidence x"
    by (rule confidence_bounds(1))
next
  assume "0 < number_value x"
  then show "scoreToConfidence x \<le> \<lceil>min 100 (number_value x * 100)\<rceil>"
    by (rule confidence_bounds(2))
next
  show "spec_confidence (number_value x) \<le> scoreToConfidence x"
    using confidence_near_spec [of x] by simp
next
  show "scoreToConfidence x \<le> spec_confidence (number_value x) + 1"
    using confidence_near_spec [of x] by simp
next
  assume "0 < number_value x \<and> number_value x \<le> 1"
  then show "scoreToConfidence x = \<lfloor>number_value x * 100\<rfloor>
         \<or> scoreToConfidence x = \<lfloor>number_value x * 100\<rfloor> + 1"
    using confidence_unit [of x] by simp
next
  show "scoreToConfidence x \<le> 100" by (rule confidence_le_100)
next
  assume "1 < number_value x"
  then show "scoreToConfidence x = 100" by (rule confidence_above_one)
qed

theorem C1_confidence_rounded_witness:
  "matchConfidence
     (streamLoop_resume sample_format Verify
        (Inr \<lparr>display_base64 = [], raw_base64 = None, score = score_091\<rparr>) captured_page)
     = 91
   \<and> number_value (Number (- 3) 0) \<le> 0 \<and> scoreToConfidence (Number (- 3) 0) = 0
   \<and> number_value (Number 0 0) \<le> 0 \<and> scoreToConfidence (Number 0 0) = 0
   \<and> 0 < number_value score_042 \<and> number_value score_042 \<le> 1
   \<and> \<lfloor>number_value score_042 * 100\<rfloor> = 41 \<and> scoreToConfidence score_042 = 42
   \<and> 0 < number_value score_091 \<and> number_value score_091 \<le> 1
   \<and> \<lfloor>number_value score_091 * 100\<rfloor> = 91 \<and> scoreToConfidence score_091 = 91
   \<and> number_value score_one = 1 \<and> scoreToConfidence score_one = 100
   \<and> 1 < number_value score_two_and_a_half
   \<and> scoreToConfidence score_two_and_a_half = 100"
proof -
  have vals: "number_value (Number (- 3) 0) \<le> 0" "number_value (Number 0 0) \<le> 0"
    "0 < number_value score_042" "number_value score_042 \<le> 1"
    "\<lfloor>number_value score_042 * 100\<rfloor> = 41"
    "0 < number_value score_091" "number_value score_091 \<le> 1"
    "\<lfloor>number_value score_091 * 100\<rfloor> = 91"
    "number_value score_one = 1" "1 < number_value score_two_and_a_half"
    by (simp_all add: number_value_def score_042_def score_091_def score_one_def
          score_two_and_a_half_def)
  from vals
    C1_confidence_rounded [where fmt = sample_format and s = captured_page
      and res = "\<lparr>display_base64 = [], raw_base64 = None, score = score_091\<rparr>"
      and x = "Number (- 3) 0"]
    C1_confidence_rounded [where fmt = sample_format and s = captured_page
      and res = sample_frame and x = "Number 0 0"]
    C1_confidence_rounded [where fmt = sample_format and s = captured_page
      and res = sample_frame and x = score_042]
    C1_confidence_rounded [where fmt = sample_format and s = captured_page
      and res = sample_frame and x = score_091]
    C1_confidence_rounded [where fmt = sample_format and s = captured_page
      and res = sample_frame and x = score_one]
    C1_confidence_rounded [where fmt = sample_format and s = captured_page
      and res = sample_frame and x = score_two_and_a_half]
  show ?thesis
    by (simp add: confidence_042 confidence_091 confidence_one confidence_two_and_a_half)
qed

subsection \<open>Unfolding and evaluation\<close>

lemmas effect_defs =
  ElMessage_error_def ElMessage_warning_def invoke_def requestAnimationFrame_def

lemmas handler_defs =
  streamLoop_begin_def streamLoop_resume_def streamLoop_catch_def animationFrame_def
  settle_def startCamera_def stopCamera_def stopCamera_begin_def confirmCapture_def
  stopCapture_def toggleVerification_def handleSave_def

lemmas example_defs =
  initial_page_def sample_frame_def streaming_page_def captured_page_def

lemma streaming_page_eval:
  "streaming_page =
     \<lparr>faceName = [], threshold = 50,
      capturedImage = ''data:image/jpeg;base64,DDDD'',
      rawImageForSystem = Some ''data:image/jpeg;base64,RRRR'',
      isCameraStreaming = True, isLoopRunning = True, verificationMode = False,
      verifyingStreamImage = [], matchConfidence = 0, isProcessing = False,
      username = [], password = [],
      notices = [], invoked = [OpenCamera, CheckFaceFromCamera], frames = 1,
      awaiting = []\<rparr>"
  by (simp add: example_defs handler_defs effect_defs)

lemma captured_page_eval:
  "captured_page =
     \<lparr>faceName = [], threshold = 50,
      capturedImage = ''data:image/jpeg;base64,DDDD'',
      rawImageForSystem = Some ''data:image/jpeg;base64,RRRR'',
      isCameraStreaming = False, isLoopRunning = False, verificationMode = False,
      verifyingStreamImage = [], matchConfidence = 0, isProcessing = False,
      username = [], password = [],
      notices = [], invoked = [OpenCamera, CheckFaceFromCamera, StopCamera], frames = 0,
      awaiting = []\<rparr>"
  by (simp add: captured_page_def streaming_page_eval handler_defs effect_defs)


lemma verify_on_page_eval:
  "verify_on_page =
     captured_page
       \<lparr>verificationMode := True, isLoopRunning := True,
        invoked := [OpenCamera, CheckFaceFromCamera, StopCamera, OpenCamera,
                    VerifyFace (Some ''RRRR'')],
        awaiting := [Verify]\<rparr>"
  by (simp add: verify_on_page_def captured_page_eval handler_defs effect_defs
        referenceBase64_def)

lemma verify_off_page_eval:
  "verify_off_page =
     captured_page
       \<lparr>verificationMode := False, isLoopRunning := False,
        invoked := [OpenCamera, CheckFaceFromCamera, StopCamera, OpenCamera,
                    VerifyFace (Some ''RRRR''), StopCamera],
        awaiting := [Verify]\<rparr>"
  by (simp add: verify_off_page_def verify_on_page_eval captured_page_eval handler_defs
        effect_defs)

lemma verify_again_page_eval:
  "verify_again_page =
     captured_page
       \<lparr>verificationMode := True, isLoopRunning := True,
        invoked := [OpenCamera, CheckFaceFromCamera, StopCamera, OpenCamera,
                    VerifyFace (Some ''RRRR''), StopCamera, OpenCamera,
                    VerifyFace (Some ''RRRR'')],
        awaiting := [Verify, Verify]\<rparr>"
  by (simp add: verify_again_page_def verify_off_page_eval captured_page_eval handler_defs
        effect_defs referenceBase64_def)

subsection \<open>The loop, step by step\<close>

lemma catch_frames: "frames (streamLoop_catch fmt err s) \<le> Suc (frames s)"
  by (simp add: streamLoop_catch_def effect_defs Let_def)

lemma catch_same:
  "awaiting (streamLoop_catch fmt err s) = awaiting s
   \<and> invoked (streamLoop_catch fmt err s) = invoked s
   \<and> isLoopRunning (streamLoop_catch fmt err s) = isLoopRunning s"
  by (simp add: streamLoop_catch_def effect_defs Let_def)

lemma begin_pending: "pending (streamLoop_begin fmt s) \<le> Suc (pending s)"
  using catch_frames [of fmt TypeError s] catch_same [of fmt TypeError s]
  by (simp add: streamLoop_begin_def pending_def effect_defs split: option.splits)

lemma begin_calls_le: "detection_calls (streamLoop_begin fmt s) \<le> Suc (detection_calls s)"
  using catch_same [of fmt TypeError s]
  by (simp add: streamLoop_begin_def detection_calls_def effect_defs split: option.splits)

lemma begin_issue:
  assumes "isLoopRunning s" "verificationMode s \<longrightarrow> rawImageForSystem s \<noteq> None"
  shows "detection_calls (streamLoop_begin fmt s) = Suc (detection_calls s)"
    and "length (awaiting (streamLoop_begin fmt s)) = Suc (length (awaiting s))"
    and "frames (streamLoop_begin fmt s) = frames s"
  using assms
  by (auto simp add: streamLoop_begin_def detection_calls_def effect_defs
        split: option.splits)

lemma begin_off: "\<not> isLoopRunning s \<Longrightarrow> streamLoop_begin fmt s = s"
  by (simp add: streamLoop_begin_def)

lemma resume_frames: "frames (streamLoop_resume fmt br r s) \<le> Suc (frames s)"
  by (simp add: streamLoop_resume_def streamLoop_catch_def effect_defs Let_def
        split: sum.splits branch.splits)

lemma resume_awaiting: "awaiting (streamLoop_resume fmt br r s) = awaiting s"
  by (simp add: streamLoop_resume_def streamLoop_catch_def effect_defs Let_def
        split: sum.splits branch.splits)

lemma resume_invoked: "invoked (streamLoop_resume fmt br r s) = invoked s"
  by (simp add: streamLoop_resume_def streamLoop_catch_def effect_defs Let_def
        split: sum.splits branch.splits)

lemma resume_flag: "isLoopRunning (streamLoop_resume fmt br r s) = isLoopRunning s"
  by (simp add: streamLoop_resume_def streamLoop_catch_def effect_defs Let_def
        split: sum.splits branch.splits)

lemma frame_pending: "pending (animationFrame fmt s) \<le> pending s"
proof (cases "frames s = 0")
  case True
  then show ?thesis by (simp add: animationFrame_def)
next
  case False
  then have "Suc (pending (s\<lparr>frames := frames s - 1\<rparr>)) = pending s"
    by (simp add: pending_def)
  with begin_pending [of fmt "s\<lparr>frames := frames s - 1\<rparr>"] False
  show ?thesis by (simp add: animationFrame_def)
qed

lemma frame_calls_le: "detection_calls (animationFrame fmt s) \<le> Suc (detection_calls s)"
proof (cases "frames s = 0")
  case True
  then show ?thesis by (simp add: animationFrame_def)
next
  case False
  have "detection_calls (s\<lparr>frames := frames s - 1\<rparr>) = detection_calls s"
    by (simp add: detection_calls_def)
  with begin_calls_le [of fmt "s\<lparr>frames := frames s - 1\<rparr>"] False
  show ?thesis by (simp add: animationFrame_def)
qed

lemma settle_pending: "pending (settle fmt r s) \<le> pending s"
proof (cases "awaiting s")
  case Nil
  then show ?thesis by (simp add: settle_def)
next
  case (Cons br rest)
  have "frames (streamLoop_resume fmt br r (s\<lparr>awaiting := rest\<rparr>)) \<le> Suc (frames s)"
    using resume_frames [of fmt br r "s\<lparr>awaiting := rest\<rparr>"] by simp
  with Cons show ?thesis
    by (simp add: settle_def pending_def resume_awaiting)
qed

lemma settle_frames: "frames (settle fmt r s) \<le> Suc (frames s)"
proof (cases "awaiting s")
  case Nil
  then show ?thesis by (simp add: settle_def)
next
  case (Cons br rest)
  have "frames (streamLoop_resume fmt br r (s\<lparr>awaiting := rest\<rparr>)) \<le> Suc (frames s)"
    using resume_frames [of fmt br r "s\<lparr>awaiting := rest\<rparr>"] by simp
  with Cons show ?thesis by (simp add: settle_def)
qed

lemma settle_calls: "detection_calls (settle fmt r s) = detection_calls s"
  by (cases "awaiting s") (simp_all add: settle_def detection_calls_def resume_invoked)

lemma settle_flag: "isLoopRunning (settle fmt r s) = isLoopRunning s"
  by (cases "awaiting s") (simp_all add: settle_def resume_flag)

lemma confirm_loop:
  "frames (confirmCapture fmt r s) = frames s
   \<and> awaiting (confirmCapture fmt r s) = awaiting s
   \<and> isLoopRunning (confirmCapture fmt r s) = False
   \<and> detection_calls (confirmCapture fmt r s) = detection_calls s"
  by (simp add: confirmCapture_def stopCamera_def stopCamera_begin_def effect_defs
        detection_calls_def Let_def split: sum.splits)

lemma cancel_loop:
  "frames (stopCapture fmt r s) = frames s
   \<and> awaiting (stopCapture fmt r s) = awaiting s
   \<and> isLoopRunning (stopCapture fmt r s) = False
   \<and> detection_calls (stopCapture fmt r s) = detection_calls s"
  by (simp add: stopCapture_def stopCamera_def stopCamera_begin_def effect_defs
        detection_calls_def Let_def split: sum.splits)

lemma step_pending: "pending (step fmt ev s) \<le> pending s"
proof (cases ev)
  case Frame
  then show ?thesis by (simp add: frame_pending)
next
  case (Reply r)
  then show ?thesis by (simp add: settle_pending)
next
  case (Confirm r)
  then show ?thesis by (simp add: pending_def confirm_loop)
next
  case (Cancel r)
  then show ?thesis by (simp add: pending_def cancel_loop)
qed

lemma run_pending: "pending (run fmt evs s) \<le> pending s"
proof (induction evs arbitrary: s)
  case Nil
  show ?case by simp
next
  case (Cons ev evs)
  have "pending (run fmt evs (step fmt ev s)) \<le> pending (step fmt ev s)"
    by (rule Cons.IH)
  also have "\<dots> \<le> pending s"
    by (rule step_pending)
  finally show ?case by simp
qed

lemma step_off:
  assumes off: "\<not> isLoopRunning s"
  shows "\<not> isLoopRunning (step fmt ev s)
         \<and> detection_calls (step fmt ev s) = detection_calls s"
proof (cases ev)
  case Frame
  with off show ?thesis
    by (simp add: animationFrame_def begin_off detection_calls_def)
next
  case (Reply r)
  with off show ?thesis
    by (simp add: settle_calls settle_flag)
next
  case (Confirm r)
  then show ?thesis by (simp add: confirm_loop)
next
  case (Cancel r)
  then show ?thesis by (simp add: cancel_loop)
qed

lemma run_off:
  "\<not> isLoopRunning s \<Longrightarrow>
     \<not> isLoopRunning (run fmt evs s)
     \<and> detection_calls (run fmt evs s) = detection_calls s"
proof (induction evs arbitrary: s)
  case Nil
  then show ?case by simp
next
  case (Cons ev evs)
  from step_off [OF Cons.prems, of fmt ev]
  have a: "\<not> isLoopRunning (step fmt ev s)"
    and b: "detection_calls (step fmt ev s) = detection_calls s"
    by simp_all
  from Cons.IH [OF a] b show ?case by simp
qed

lemma step_idle:
  assumes idle: "pending s = 0"
  shows "detection_calls (step fmt ev s) = detection_calls s"
proof (cases ev)
  case Frame
  with idle show ?thesis by (simp add: animationFrame_def pending_def)
next
  case (Reply r)
  then show ?thesis by (simp add: settle_calls)
next
  case (Confirm r)
  then show ?thesis by (simp add: confirm_loop)
next
  case (Cancel r)
  then show ?thesis by (simp add: cancel_loop)
qed

lemma run_idle:
  "pending s = 0 \<Longrightarrow>
     pending (run fmt evs s) = 0 \<and> detection_calls (run fmt evs s) = detection_calls s"
proof (induction evs arbitrary: s)
  case Nil
  then show ?case by simp
next
  case (Cons ev evs)
  have "pending (step fmt ev s) \<le> pending s"
    by (rule step_pending)
  with Cons.prems have a: "pending (step fmt ev s) = 0" by simp
  from Cons.IH [OF a] step_idle [OF Cons.prems, of fmt ev] show ?case by simp
qed

subsection \<open>The frame loop\<close>

lemma noface_tick:
  assumes "isLoopRunning s" "frames s = 1" "awaiting s = []"
    and "js_includes (fmt (Rejection e)) noFaceText"
    and "verificationMode s \<Longrightarrow> rawImageForSystem s = Some raw"
  shows "settle fmt (Inl e) (animationFrame fmt s) =
           s\<lparr>invoked := invoked s @
              [if verificationMode s then VerifyFace (referenceBase64 raw)
               else CheckFaceFromCamera]\<rparr>"
  using assms
  by (simp add: animationFrame_def settle_def streamLoop_resume_def streamLoop_catch_def
        streamLoop_begin_def effect_defs)

lemma noface_ticks:
  assumes "isLoopRunning s" "frames s = 1" "awaiting s = []"
    and "\<forall>e \<in> set es. js_includes (fmt (Rejection e)) noFaceText"
    and "verificationMode s \<Longrightarrow> rawImageForSystem s = Some raw"
  shows "(run fmt (concat (map (\<lambda>e. [Frame, Reply (Inl e)]) es)) s)\<lparr>invoked := invoked s\<rparr> = s
    \<and> detection_calls (run fmt (concat (map (\<lambda>e. [Frame, Reply (Inl e)]) es)) s)
         = detection_calls s + length es"
  using assms
proof (induction es arbitrary: s)
  case Nil
  then show ?case by simp
next
  case (Cons e es)
  let ?c = "if verificationMode s then VerifyFace (referenceBase64 raw)
               else CheckFaceFromCamera"
  let ?s1 = "s\<lparr>invoked := invoked s @ [?c]\<rparr>"
  let ?evs = "concat (map (\<lambda>e. [Frame, Reply (Inl e)]) es)"
  from Cons.prems have tick: "settle fmt (Inl e) (animationFrame fmt s) = ?s1"
    by (intro noface_tick) simp_all
  have pre: "isLoopRunning ?s1" "frames ?s1 = 1" "awaiting ?s1 = []"
    "\<forall>e \<in> set es. js_includes (fmt (Rejection e)) noFaceText"
    "verificationMode ?s1 \<Longrightarrow> rawImageForSystem ?s1 = Some raw"
    using Cons.prems by simp_all
  from Cons.IH [OF pre]
  have ih1: "(run fmt ?evs ?s1)\<lparr>invoked := invoked ?s1\<rparr> = ?s1"
    and ih2: "detection_calls (run fmt ?evs ?s1) = detection_calls ?s1 + length es"
    by simp_all
  have "(run fmt ?evs ?s1)\<lparr>invoked := invoked s\<rparr>
          = ((run fmt ?evs ?s1)\<lparr>invoked := invoked ?s1\<rparr>)\<lparr>invoked := invoked s\<rparr>"
    by simp
  also have "\<dots> = ?s1\<lparr>invoked := invoked s\<rparr>"
    by (simp only: ih1)
  also have "\<dots> = s" by simp
  finally have a: "(run fmt ?evs ?s1)\<lparr>invoked := invoked s\<rparr> = s" .
  have "detection_calls ?s1 = Suc (detection_calls s)"
    by (simp add: detection_calls_def)
  with ih2 have b: "detection_calls (run fmt ?evs ?s1) = detection_calls s + length (e # es)"
    by simp
  from a b tick show ?case by simp
qed

text \<open>
  Claim C6. A rejection whose text contains the no-face marker is swallowed: the activation
  that receives it requests the next animation frame and changes nothing else, so no
  message is shown. For a running loop that waits for its animation frame, any number of
  consecutive ticks (the frame callback runs, its detection call is rejected with a
  no-face error) leave the page as it was except for the log of issued commands: no message
  is added, the loop flag stays set, one frame is again pending, and one detection call has
  been issued per tick. The ticks are ticks that issue their call: in verify mode the raw
  image is a string.
\<close>

theorem C6_no_face_swallowed:
  "(js_includes (fmt (Rejection e)) noFaceText \<longrightarrow>
      streamLoop_resume fmt br (Inl e) s = requestAnimationFrame s)
   \<and> (isLoopRunning s \<and> frames s = 1 \<and> awaiting s = []
        \<and> (verificationMode s \<longrightarrow> rawImageForSystem s \<noteq> None)
        \<and> (\<forall>x \<in> set es. js_includes (fmt (Rejection x)) noFaceText) \<longrightarrow>
      notices (run fmt (concat (map (\<lambda>x. [Frame, Reply (Inl x)]) es)) s) = notices s
      \<and> isLoopRunning (run fmt (concat (map (\<lambda>x. [Frame, Reply (Inl x)]) es)) s)
      \<and> frames (run fmt (concat (map (\<lambda>x. [Frame, Reply (Inl x)]) es)) s) = 1
      \<and> awaiting (run fmt (concat (map (\<lambda>x. [Frame, Reply (Inl x)]) es)) s) = []
      \<and> detection_calls (run fmt (concat (map (\<lambda>x. [Frame, Reply (Inl x)]) es)) s)
          = detection_calls s + length es
      \<and> (run fmt (concat (map (\<lambda>x. [Frame, Reply (Inl x)]) es)) s)\<lparr>invoked := invoked s\<rparr> = s)"
proof (intro conjI impI)
  assume "js_includes (fmt (Rejection e)) noFaceText"
  then show "streamLoop_resume fmt br (Inl e) s = requestAnimationFrame s"
    by (simp add: streamLoop_resume_def streamLoop_catch_def)
next
  let ?s' = "run fmt (concat (map (\<lambda>x. [Frame, Reply (Inl x)]) es)) s"
  assume h: "isLoopRunning s \<and> frames s = 1 \<and> awaiting s = []
        \<and> (verificationMode s \<longrightarrow> rawImageForSystem s \<noteq> None)
        \<and> (\<forall>x \<in> set es. js_includes (fmt (Rejection x)) noFaceText)"
  then obtain raw where raw: "verificationMode s \<Longrightarrow> rawImageForSystem s = Some raw"
    by (cases "rawImageForSystem s") auto
  from h have eq: "?s'\<lparr>invoked := invoked s\<rparr> = s"
    and calls: "detection_calls ?s' = detection_calls s + length es"
    using noface_ticks [of s es fmt raw] raw by simp_all
  from eq show "?s'\<lparr>invoked := invoked s\<rparr> = s" .
  from calls show "detection_calls ?s' = detection_calls s + length es" .
  have "notices (?s'\<lparr>invoked := invoked s\<rparr>) = notices s" by (simp only: eq)
  then show "notices ?s' = notices s" by simp
  have "isLoopRunning (?s'\<lparr>invoked := invoked s\<rparr>) = isLoopRunning s" by (simp only: eq)
  with h show "isLoopRunning ?s'" by simp
  have "frames (?s'\<lparr>invoked := invoked s\<rparr>) = frames s" by (simp only: eq)
  with h show "frames ?s' = 1" by simp
  have "awaiting (?s'\<lparr>invoked := invoked s\<rparr>) = awaiting s" by (simp only: eq)
  with h show "awaiting ?s' = []" by simp
qed

theorem C6_no_face_swallowed_witness:
  "js_includes (sample_format (Rejection noFaceText)) noFaceText
   \<and> isLoopRunning streaming_page \<and> frames streaming_page = 1 \<and> awaiting streaming_page = []
   \<and> \<not> verificationMode streaming_page
   \<and> notices streaming_page = []
   \<and> detection_calls streaming_page = 1
   \<and> notices (run sample_format (concat (map (\<lambda>x. [Frame, Reply (Inl x)])
        [noFaceText, noFaceText, noFaceText, noFaceText, noFaceText])) streaming_page) = []
   \<and> isLoopRunning (run sample_format (concat (map (\<lambda>x. [Frame, Reply (Inl x)])
        [noFaceText, noFaceText, noFaceText, noFaceText, noFaceText])) streaming_page)
   \<and> frames (run sample_format (concat (map (\<lambda>x. [Frame, Reply (Inl x)])
        [noFaceText, noFaceText, noFaceText, noFaceText, noFaceText])) streaming_page) = 1
   \<and> detection_calls (run sample_format (concat (map (\<lambda>x. [Frame, Reply (Inl x)])
        [noFaceText, noFaceText, noFaceText, noFaceText, noFaceText])) streaming_page) = 6"
proof -
  have nf: "js_includes (sample_format (Rejection noFaceText)) noFaceText"
    by (simp add: noFaceText_def)
  have pre: "isLoopRunning streaming_page \<and> frames streaming_page = 1
      \<and> awaiting streaming_page = [] \<and> notices streaming_page = []
      \<and> \<not> verificationMode streaming_page
      \<and> detection_calls streaming_page = 1"
    by (simp add: streaming_page_eval detection_calls_def)
  from nf pre
    C6_no_face_swallowed [where fmt = sample_format and s = streaming_page
      and e = noFaceText and br = Enroll
      and es = "[noFaceText, noFaceText, noFaceText, noFaceText, noFaceText]"]
  show ?thesis by simp
qed

text \<open>
  Claim C2 as stated says that a detection error other than the no-face condition is shown
  and that the loop still reschedules. In the running capture session below the tick's call
  is rejected with such an error: the message is shown, but no animation frame is requested
  and no call is left in flight, while the loop flag stays set.
\<close>

theorem C2_generic_error_reschedules_counterexample:
  "\<not> js_includes (sample_format (Rejection ''camera read failed'')) noFaceText
   \<and> isLoopRunning (animationFrame sample_format streaming_page)
   \<and> awaiting (animationFrame sample_format streaming_page) = [Enroll]
   \<and> notices (settle sample_format (Inl ''camera read failed'')
        (animationFrame sample_format streaming_page))
        = [MsgError ''camera read failed'']
   \<and> frames (settle sample_format (Inl ''camera read failed'')
        (animationFrame sample_format streaming_page)) = 0
   \<and> awaiting (settle sample_format (Inl ''camera read failed'')
        (animationFrame sample_format streaming_page)) = []
   \<and> isLoopRunning (settle sample_format (Inl ''camera read failed'')
        (animationFrame sample_format streaming_page))"
  by (simp add: streaming_page_eval noFaceText_def handler_defs effect_defs)

text \<open>
  Claim C2, amended. For every error raised by the per-tick detection call that is not the
  no-face condition, the activation shows the error and changes nothing else: it requests no
  animation frame. When it was the loop's only pending work, the loop ends with that tick:
  nothing is pending, the loop flag keeps its value, and no detection call is issued in any
  continuation of frames, replies, confirms and cancels.
\<close>

theorem C2_generic_error_ends_loop:
  "(\<not> js_includes (fmt (Rejection e)) noFaceText \<longrightarrow>
      streamLoop_resume fmt br (Inl e) s
        = s\<lparr>notices := notices s @ [MsgError (fmt (Rejection e))]\<rparr>)
   \<and> (\<not> js_includes (fmt (Rejection e)) noFaceText \<and> awaiting s = [br] \<and> frames s = 0 \<longrightarrow>
      notices (settle fmt (Inl e) s) = notices s @ [MsgError (fmt (Rejection e))]
      \<and> isLoopRunning (settle fmt (Inl e) s) = isLoopRunning s
      \<and> pending (settle fmt (Inl e) s) = 0
      \<and> detection_calls (run fmt evs (settle fmt (Inl e) s)) = detection_calls s)"
proof (intro conjI impI)
  assume "\<not> js_includes (fmt (Rejection e)) noFaceText"
  then show "streamLoop_resume fmt br (Inl e) s
        = s\<lparr>notices := notices s @ [MsgError (fmt (Rejection e))]\<rparr>"
    by (simp add: streamLoop_resume_def streamLoop_catch_def effect_defs)
next
  assume h: "\<not> js_includes (fmt (Rejection e)) noFaceText \<and> awaiting s = [br]
      \<and> frames s = 0"
  then have eq: "settle fmt (Inl e) s
      = s\<lparr>awaiting := [], notices := notices s @ [MsgError (fmt (Rejection e))]\<rparr>"
    by (simp add: settle_def streamLoop_resume_def streamLoop_catch_def effect_defs)
  show "notices (settle fmt (Inl e) s) = notices s @ [MsgError (fmt (Rejection e))]"
    by (simp add: eq)
  show "isLoopRunning (settle fmt (Inl e) s) = isLoopRunning s"
    by (simp add: eq)
  from h show idle: "pending (settle fmt (Inl e) s) = 0"
    by (simp add: eq pending_def)
  from run_idle [OF idle, of fmt evs]
  show "detection_calls (run fmt evs (settle fmt (Inl e) s)) = detection_calls s"
    by (simp add: settle_calls)
qed

theorem C2_generic_error_ends_loop_witness:
  "\<not> js_includes (sample_format (Rejection ''camera read failed'')) noFaceText
   \<and> awaiting (animationFrame sample_format streaming_page) = [Enroll]
   \<and> frames (animationFrame sample_format streaming_page) = 0
   \<and> notices (settle sample_format (Inl ''camera read failed'')
        (animationFrame sample_format streaming_page))
        = [MsgError ''camera read failed'']
   \<and> pending (settle sample_format (Inl ''camera read failed'')
        (animationFrame sample_format streaming_page)) = 0
   \<and> detection_calls (run sample_format [Frame, Reply (Inr sample_frame), Frame]
        (settle sample_format (Inl ''camera read failed'')
           (animationFrame sample_format streaming_page))) = 2"
proof -
  have pre: "\<not> js_includes (sample_format (Rejection ''camera read failed'')) noFaceText
      \<and> awaiting (animationFrame sample_format streaming_page) = [Enroll]
      \<and> frames (animationFrame sample_format streaming_page) = 0
      \<and> notices (animationFrame sample_format streaming_page) = []
      \<and> detection_calls (animationFrame sample_format streaming_page) = 2"
    by (simp add: streaming_page_eval noFaceText_def handler_defs effect_defs
          detection_calls_def)
  from pre
    C2_generic_error_ends_loop [where fmt = sample_format and e = "''camera read failed''"
      and br = Enroll and s = "animationFrame sample_format streaming_page"
      and evs = "[Frame, Reply (Inr sample_frame), Frame]"]
  show ?thesis by simp
qed

text \<open>
  Claim C7 as stated holds in every execution: at most one detection call is in flight at
  any time, and clearing the loop flag stops the loop at its next tick. On the captured
  page the toggle control is rendered; the user switches verification on, off while the
  first \<^verbatim>\<open>verify_face\<close> call is still in flight, and on again. The second start sets the
  shared flag again before the first loop has seen it cleared: two calls are in flight, and
  once both have settled and both frames have run, two calls are in flight again.
\<close>

theorem C7_restart_counterexample:
  "click_toggleVerification sample_format (Inr ()) captured_page = Some verify_on_page
   \<and> click_toggleVerification sample_format (Inr ()) verify_on_page = Some verify_off_page
   \<and> click_toggleVerification sample_format (Inr ()) verify_off_page
        = Some verify_again_page
   \<and> pending captured_page = 0
   \<and> awaiting verify_on_page = [Verify]
   \<and> \<not> isLoopRunning verify_off_page
   \<and> awaiting verify_off_page = [Verify]
   \<and> awaiting verify_again_page = [Verify, Verify]
   \<and> detection_calls verify_again_page = 3
   \<and> awaiting (run sample_format
        [Reply (Inr sample_match), Reply (Inr sample_match), Frame, Frame]
        verify_again_page) = [Verify, Verify]
   \<and> detection_calls (run sample_format
        [Reply (Inr sample_match), Reply (Inr sample_match), Frame, Frame]
        verify_again_page) = 5"
  by (simp add: click_toggleVerification_def toggleControlShown_def
        verify_on_page_def [symmetric] verify_off_page_def [symmetric]
        verify_again_page_def [symmetric])
    (simp add: verify_on_page_eval verify_off_page_eval verify_again_page_eval
        captured_page_eval pending_def detection_calls_def sample_match_def
        handler_defs effect_defs referenceBase64_def scoreToConfidence_def number_value_def)

text \<open>
  Claim C7, amended. A tick issues at most one detection call, and exactly one when it
  finds the loop flag set and, in verify mode, the raw image is a string; it requests no
  frame itself. A frame is requested only when a reply is handled, at most one per reply,
  and handling a reply issues no call. Hence, for a loop that has been started once, under
  any interleaving of animation frames, replies, confirms and cancels, the frames pending
  and the calls in flight together never exceed one. A tick that finds the flag cleared
  does nothing, and as long as the loop is not started again no detection call is issued
  after the flag is cleared. Clearing the flag leaves a call in flight untouched, and its
  reply is handled exactly as it would have been with the flag set. The flag is shared:
  each granted \<^verbatim>\<open>startCamera\<close> or entry into verify mode adds one activation to whatever
  is still pending, so across a restart more than one call can be in flight.
\<close>

theorem C7_one_call_per_loop:
  "(pending s \<le> 1 \<longrightarrow> pending (run fmt evs s) \<le> 1)
   \<and> detection_calls (animationFrame fmt s) \<le> Suc (detection_calls s)
   \<and> (isLoopRunning s \<and> 0 < frames s
        \<and> (verificationMode s \<longrightarrow> rawImageForSystem s \<noteq> None) \<longrightarrow>
        detection_calls (animationFrame fmt s) = Suc (detection_calls s)
        \<and> length (awaiting (animationFrame fmt s)) = Suc (length (awaiting s))
        \<and> frames (animationFrame fmt s) = frames s - 1)
   \<and> detection_calls (settle fmt r s) = detection_calls s
   \<and> frames (settle fmt r s) \<le> Suc (frames s)
   \<and> (\<not> isLoopRunning s \<longrightarrow> animationFrame fmt s = s\<lparr>frames := frames s - 1\<rparr>)
   \<and> (\<not> isLoopRunning s \<longrightarrow> detection_calls (run fmt evs s) = detection_calls s)
   \<and> awaiting (stopCamera_begin s) = awaiting s
   \<and> frames (stopCamera_begin s) = frames s
   \<and> \<not> isLoopRunning (stopCamera_begin s)
   \<and> streamLoop_resume fmt br r (s\<lparr>isLoopRunning := False\<rparr>)
        = (streamLoop_resume fmt br r s)\<lparr>isLoopRunning := False\<rparr>
   \<and> (\<not> verificationMode s \<longrightarrow>
        isLoopRunning (startCamera fmt (Inr u) s)
        \<and> pending (startCamera fmt (Inr u) s) = Suc (pending s))
   \<and> (\<not> verificationMode s \<and> rawImageForSystem s \<noteq> None \<longrightarrow>
        isLoopRunning (toggleVerification fmt (Inr u) s)
        \<and> pending (toggleVerification fmt (Inr u) s) = Suc (pending s))"
proof (intro conjI impI)
  assume "pending s \<le> 1"
  with run_pending [of fmt evs s] show "pending (run fmt evs s) \<le> 1" by simp
next
  show "detection_calls (animationFrame fmt s) \<le> Suc (detection_calls s)"
    by (rule frame_calls_le)
next
  assume h: "isLoopRunning s \<and> 0 < frames s
        \<and> (verificationMode s \<longrightarrow> rawImageForSystem s \<noteq> None)"
  let ?s1 = "s\<lparr>frames := frames s - 1\<rparr>"
  from h have a: "isLoopRunning ?s1"
    and b: "verificationMode ?s1 \<longrightarrow> rawImageForSystem ?s1 \<noteq> None"
    by simp_all
  from h have unf: "animationFrame fmt s = streamLoop_begin fmt ?s1"
    by (simp add: animationFrame_def)
  from begin_issue(1) [OF a b, of fmt]
  show "detection_calls (animationFrame fmt s) = Suc (detection_calls s)"
    by (simp add: unf) (simp add: detection_calls_def)
  from begin_issue(2) [OF a b, of fmt]
  show "length (awaiting (animationFrame fmt s)) = Suc (length (awaiting s))"
    by (simp add: unf)
  from begin_issue(3) [OF a b, of fmt]
  show "frames (animationFrame fmt s) = frames s - 1"
    by (simp add: unf)
next
  show "detection_calls (settle fmt r s) = detection_calls s" by (rule settle_calls)
next
  show "frames (settle fmt r s) \<le> Suc (frames s)" by (rule settle_frames)
next
  assume "\<not> isLoopRunning s"
  then show "animationFrame fmt s = s\<lparr>frames := frames s - 1\<rparr>"
    by (simp add: animationFrame_def begin_off)
next
  assume "\<not> isLoopRunning s"
  then show "detection_calls (run fmt evs s) = detection_calls s"
    by (simp add: run_off)
next
  show "awaiting (stopCamera_begin s) = awaiting s"
    by (simp add: stopCamera_begin_def effect_defs)
next
  show "frames (stopCamera_begin s) = frames s"
    by (simp add: stopCamera_begin_def effect_defs)
next
  show "\<not> isLoopRunning (stopCamera_begin s)"
    by (simp add: stopCamera_begin_def effect_defs)
next
  show "streamLoop_resume fmt br r (s\<lparr>isLoopRunning := False\<rparr>)
        = (streamLoop_resume fmt br r s)\<lparr>isLoopRunning := False\<rparr>"
    by (simp add: streamLoop_resume_def streamLoop_catch_def effect_defs Let_def
        split: sum.splits branch.splits)
next
  assume "\<not> verificationMode s"
  then show "isLoopRunning (startCamera fmt (Inr u) s)"
    by (simp add: startCamera_def streamLoop_begin_def effect_defs)
next
  assume "\<not> verificationMode s"
  then show "pending (startCamera fmt (Inr u) s) = Suc (pending s)"
    by (simp add: startCamera_def streamLoop_begin_def effect_defs pending_def)
next
  assume "\<not> verificationMode s \<and> rawImageForSystem s \<noteq> None"
  then show "isLoopRunning (toggleVerification fmt (Inr u) s)"
    by (auto simp add: toggleVerification_def streamLoop_begin_def effect_defs)
next
  assume "\<not> verificationMode s \<and> rawImageForSystem s \<noteq> None"
  then show "pending (toggleVerification fmt (Inr u) s) = Suc (pending s)"
    by (auto simp add: toggleVerification_def streamLoop_begin_def effect_defs pending_def)
qed

theorem C7_one_call_per_loop_witness:
  "pending streaming_page \<le> 1 \<and> isLoopRunning streaming_page \<and> 0 < frames streaming_page
   \<and> \<not> verificationMode streaming_page
   \<and> pending (run sample_format [Frame, Cancel (Inr ()), Reply (Inr sample_frame), Frame]
        streaming_page) \<le> 1
   \<and> detection_calls (animationFrame sample_format streaming_page) = 2
   \<and> length (awaiting (animationFrame sample_format streaming_page)) = 1
   \<and> frames (animationFrame sample_format streaming_page) = 0
   \<and> \<not> verificationMode (confirmCapture sample_format (Inr ()) streaming_page)
   \<and> \<not> isLoopRunning (confirmCapture sample_format (Inr ()) streaming_page)
   \<and> pending (confirmCapture sample_format (Inr ()) streaming_page) = 1
   \<and> pending (startCamera sample_format (Inr ())
        (confirmCapture sample_format (Inr ()) streaming_page)) = 2
   \<and> \<not> isLoopRunning captured_page \<and> \<not> verificationMode captured_page
   \<and> rawImageForSystem captured_page \<noteq> None
   \<and> animationFrame sample_format captured_page = captured_page
   \<and> detection_calls (run sample_format [Frame, Reply (Inr sample_frame), Frame]
        captured_page) = 1
   \<and> pending (toggleVerification sample_format (Inr ()) captured_page) = 1"
proof -
  have pre: "pending streaming_page \<le> 1 \<and> isLoopRunning streaming_page
      \<and> 0 < frames streaming_page \<and> detection_calls streaming_page = 1
      \<and> \<not> verificationMode streaming_page \<and> pending streaming_page = 1
      \<and> length (awaiting streaming_page) = 0 \<and> frames streaming_page = 1"
    by (simp add: streaming_page_eval pending_def detection_calls_def)
  have pre2: "\<not> isLoopRunning captured_page \<and> detection_calls captured_page = 1
      \<and> frames captured_page = 0 \<and> \<not> verificationMode captured_page
      \<and> rawImageForSystem captured_page \<noteq> None \<and> pending captured_page = 0"
    by (simp add: captured_page_eval detection_calls_def pending_def)
  have pre3: "\<not> verificationMode (confirmCapture sample_format (Inr ()) streaming_page)
      \<and> \<not> isLoopRunning (confirmCapture sample_format (Inr ()) streaming_page)
      \<and> pending (confirmCapture sample_format (Inr ()) streaming_page) = 1"
    by (simp add: streaming_page_eval pending_def confirmCapture_def stopCamera_def
          stopCamera_begin_def effect_defs)
  from pre pre2 pre3
    C7_one_call_per_loop [where fmt = sample_format and s = streaming_page
      and evs = "[Frame, Cancel (Inr ()), Reply (Inr sample_frame), Frame]"
      and r = "Inr sample_frame" and br = Enroll and u = "()"]
    C7_one_call_per_loop [where fmt = sample_format
      and s = "confirmCapture sample_format (Inr ()) streaming_page"
      and evs = "[]" and r = "Inr sample_frame" and br = Enroll and u = "()"]
    C7_one_call_per_loop [where fmt = sample_format and s = captured_page
      and evs = "[Frame, Reply (Inr sample_frame), Frame]"
      and r = "Inr sample_frame" and br = Enroll and u = "()"]
  show ?thesis
    by (simp add: captured_page_eval handler_defs effect_defs detection_calls_def
          sample_frame_def)
qed

subsection \<open>The session controller\<close>

text \<open>
  Claim C3 as stated says that cancelling always clears both images and the streaming
  state. When the release call is rejected in the capture session below, both images and the
  streaming flag keep their values, and the start control stays hidden.
\<close>

theorem C3_cancel_always_clears_counterexample:
  "capturedImage (stopCapture sample_format (Inl ''release failed'') streaming_page)
      = ''data:image/jpeg;base64,DDDD''
   \<and> rawImageForSystem (stopCapture sample_format (Inl ''release failed'') streaming_page)
      = Some ''data:image/jpeg;base64,RRRR''
   \<and> isCameraStreaming (stopCapture sample_format (Inl ''release failed'') streaming_page)
   \<and> click_startCamera sample_format (Inr ())
        (stopCapture sample_format (Inl ''release failed'') streaming_page)
      = None"
  by (simp add: streaming_page_eval handler_defs effect_defs click_startCamera_def
        startControlShown_def)

text \<open>
  Claim C3, amended. Every invocation of \<^verbatim>\<open>stopCapture\<close> clears the loop flag and requests
  the release of the camera. When the release succeeds, both images and the streaming flag
  are cleared as well. When it fails, the error is shown and nothing else changes: both
  images and the streaming flag keep their values, and in a streaming session the start
  control stays hidden.
\<close>

theorem C3_cancel_clears_on_release:
  "\<not> isLoopRunning (stopCapture fmt reply s)
   \<and> invoked (stopCapture fmt reply s) = invoked s @ [StopCamera]
   \<and> stopCapture fmt (Inr u) s
        = s\<lparr>isLoopRunning := False, invoked := invoked s @ [StopCamera],
             isCameraStreaming := False, capturedImage := [],
             rawImageForSystem := Some []\<rparr>
   \<and> stopCapture fmt (Inl e) s
        = s\<lparr>isLoopRunning := False, invoked := invoked s @ [StopCamera],
             notices := notices s @ [MsgError (fmt (Rejection e))]\<rparr>
   \<and> capturedImage (stopCapture fmt (Inl e) s) = capturedImage s
   \<and> rawImageForSystem (stopCapture fmt (Inl e) s) = rawImageForSystem s
   \<and> isCameraStreaming (stopCapture fmt (Inl e) s) = isCameraStreaming s
   \<and> (isCameraStreaming s \<longrightarrow>
        click_startCamera fmt reply' (stopCapture fmt (Inl e) s) = None)"
  by (simp add: stopCapture_def stopCamera_def stopCamera_begin_def effect_defs Let_def
        click_startCamera_def startControlShown_def split: sum.splits)

theorem C3_cancel_clears_on_release_witness:
  "capturedImage streaming_page \<noteq> [] \<and> isCameraStreaming streaming_page
   \<and> isLoopRunning streaming_page
   \<and> \<not> isLoopRunning (stopCapture sample_format (Inr ()) streaming_page)
   \<and> capturedImage (stopCapture sample_format (Inr ()) streaming_page) = []
   \<and> rawImageForSystem (stopCapture sample_format (Inr ()) streaming_page) = Some []
   \<and> \<not> isCameraStreaming (stopCapture sample_format (Inr ()) streaming_page)
   \<and> \<not> isLoopRunning (stopCapture sample_format (Inl ''release failed'') streaming_page)
   \<and> capturedImage (stopCapture sample_format (Inl ''release failed'') streaming_page)
        \<noteq> []
   \<and> notices (stopCapture sample_format (Inl ''release failed'') streaming_page)
        = [MsgError ''release failed'']
   \<and> click_startCamera sample_format (Inr ())
        (stopCapture sample_format (Inl ''release failed'') streaming_page)
        = None"
  using C3_cancel_clears_on_release [where fmt = sample_format and s = streaming_page
      and reply = "Inr ()" and u = "()" and e = "''release failed''"
      and reply' = "Inr ()"]
    C3_cancel_clears_on_release [where fmt = sample_format and s = streaming_page
      and reply = "Inl ''release failed''" and u = "()" and e = "''release failed''"
      and reply' = "Inr ()"]
  by (simp add: streaming_page_eval)






text \<open>
  Claim C5. For every session state in which the camera is held, \<^verbatim>\<open>startCamera\<close> does not
  open a second handle: the camera rejects the request as busy, the page shows that error
  and nothing else changes. No flag is set, no activation of the loop is started and no
  detection call is issued, and the camera keeps the handles it had. At most one handle is
  ever outstanding: a start on a free and available camera takes the one handle and sets the
  loop flag, and a second start after it is the busy error.
\<close>

theorem C5_second_start_is_busy_error:
  "(0 < handles c \<longrightarrow>
      startCamera_on fmt (s, c)
        = (s\<lparr>invoked := invoked s @ [OpenCamera],
              notices := notices s @ [MsgError (fmt (Rejection ResourceBusyError))]\<rparr>, c)
      \<and> handles (snd (startCamera_on fmt (s, c))) = handles c
      \<and> isLoopRunning (fst (startCamera_on fmt (s, c))) = isLoopRunning s
      \<and> isCameraStreaming (fst (startCamera_on fmt (s, c))) = isCameraStreaming s
      \<and> pending (fst (startCamera_on fmt (s, c))) = pending s
      \<and> detection_calls (fst (startCamera_on fmt (s, c))) = detection_calls s)
   \<and> (handles c \<le> 1 \<longrightarrow> handles (snd (startCamera_on fmt (s, c))) \<le> 1)
   \<and> (handles c = 0 \<and> available c \<longrightarrow>
        handles (snd (startCamera_on fmt (s, c))) = 1
        \<and> isLoopRunning (fst (startCamera_on fmt (s, c)))
        \<and> startCamera_on fmt (startCamera_on fmt (s, c))
            = ((fst (startCamera_on fmt (s, c)))
                 \<lparr>invoked := invoked (fst (startCamera_on fmt (s, c))) @ [OpenCamera],
                  notices := notices (fst (startCamera_on fmt (s, c)))
                               @ [MsgError (fmt (Rejection ResourceBusyError))]\<rparr>,
               snd (startCamera_on fmt (s, c))))"
proof -
  have busy: "\<And>s c. 0 < handles c \<Longrightarrow>
      startCamera_on fmt (s, c)
        = (s\<lparr>invoked := invoked s @ [OpenCamera],
              notices := notices s @ [MsgError (fmt (Rejection ResourceBusyError))]\<rparr>, c)"
    by (simp add: startCamera_on_def open_camera_def startCamera_def effect_defs)
  have free: "handles c = 0 \<and> available c \<Longrightarrow>
      startCamera_on fmt (s, c)
        = (startCamera fmt (Inr ()) s, c\<lparr>handles := 1\<rparr>)"
    by (simp add: startCamera_on_def open_camera_def)
  have run_flag: "isLoopRunning (startCamera fmt (Inr ()) s)"
    by (simp add: startCamera_def streamLoop_begin_def streamLoop_catch_def effect_defs
          Let_def split: option.splits)
  show ?thesis
  proof (intro conjI impI)
    assume h: "0 < handles c"
    show "startCamera_on fmt (s, c)
        = (s\<lparr>invoked := invoked s @ [OpenCamera],
              notices := notices s @ [MsgError (fmt (Rejection ResourceBusyError))]\<rparr>, c)"
      by (rule busy [OF h])
    show "handles (snd (startCamera_on fmt (s, c))) = handles c"
      by (simp add: busy [OF h])
    show "isLoopRunning (fst (startCamera_on fmt (s, c))) = isLoopRunning s"
      by (simp add: busy [OF h])
    show "isCameraStreaming (fst (startCamera_on fmt (s, c))) = isCameraStreaming s"
      by (simp add: busy [OF h])
    show "pending (fst (startCamera_on fmt (s, c))) = pending s"
      by (simp add: busy [OF h] pending_def)
    show "detection_calls (fst (startCamera_on fmt (s, c))) = detection_calls s"
      by (simp add: busy [OF h] detection_calls_def)
  next
    assume "handles c \<le> 1"
    then show "handles (snd (startCamera_on fmt (s, c))) \<le> 1"
      by (simp add: startCamera_on_def open_camera_def)
  next
    assume h: "handles c = 0 \<and> available c"
    show "handles (snd (startCamera_on fmt (s, c))) = 1"
      by (simp add: free [OF h])
    show "isLoopRunning (fst (startCamera_on fmt (s, c)))"
      by (simp add: free [OF h] run_flag)
    show "startCamera_on fmt (startCamera_on fmt (s, c))
            = ((fst (startCamera_on fmt (s, c)))
                 \<lparr>invoked := invoked (fst (startCamera_on fmt (s, c))) @ [OpenCamera],
                  notices := notices (fst (startCamera_on fmt (s, c)))
                               @ [MsgError (fmt (Rejection ResourceBusyError))]\<rparr>,
               snd (startCamera_on fmt (s, c)))"
      using busy [of "c\<lparr>handles := 1\<rparr>" "startCamera fmt (Inr ()) s"]
      by (simp add: free [OF h])
  qed
qed

theorem C5_second_start_is_busy_error_witness:
  "isLoopRunning streaming_page \<and> isCameraStreaming streaming_page
   \<and> 0 < handles \<lparr>handles = 1, available = True\<rparr>
   \<and> startCamera_on camera_format (streaming_page, \<lparr>handles = 1, available = True\<rparr>)
        = (streaming_page
             \<lparr>invoked := [OpenCamera, CheckFaceFromCamera, OpenCamera],
              notices := [MsgError ''ResourceBusyError'']\<rparr>,
           \<lparr>handles = 1, available = True\<rparr>)
   \<and> pending (fst (startCamera_on camera_format
        (streaming_page, \<lparr>handles = 1, available = True\<rparr>))) = 1
   \<and> handles (snd (startCamera_on camera_format
        (initial_page, \<lparr>handles = 0, available = True\<rparr>))) = 1
   \<and> isLoopRunning (fst (startCamera_on camera_format
        (initial_page, \<lparr>handles = 0, available = True\<rparr>)))
   \<and> handles (snd (startCamera_on camera_format (startCamera_on camera_format
        (initial_page, \<lparr>handles = 0, available = True\<rparr>)))) = 1
   \<and> notices (fst (startCamera_on camera_format (startCamera_on camera_format
        (initial_page, \<lparr>handles = 0, available = True\<rparr>))))
        = [MsgError ''ResourceBusyError'']"
proof -
  have pre: "isLoopRunning streaming_page \<and> isCameraStreaming streaming_page
      \<and> pending streaming_page = 1 \<and> notices streaming_page = []
      \<and> invoked streaming_page = [OpenCamera, CheckFaceFromCamera]"
    by (simp add: streaming_page_eval pending_def)
  have first: "notices (fst (startCamera_on camera_format
      (initial_page, \<lparr>handles = 0, available = True\<rparr>))) = []"
    by (simp add: startCamera_on_def open_camera_def initial_page_def handler_defs
          effect_defs)
  from pre first
    C5_second_start_is_busy_error [where fmt = camera_format and s = streaming_page
      and c = "\<lparr>handles = 1, available = True\<rparr>"]
    C5_second_start_is_busy_error [where fmt = camera_format and s = initial_page
      and c = "\<lparr>handles = 0, available = True\<rparr>"]
  show ?thesis by (simp add: streaming_page_eval pending_def)
qed

subsection \<open>Classification\<close>

text \<open>
  Claim C8. For every confidence value \<open>c\<close> and every threshold \<open>t\<close>, the confidence tag
  is classified as a match if and only if \<open>c\<close> is strictly greater than \<open>t\<close>, and as a
  mismatch otherwise; when \<open>c\<close> equals \<open>t\<close> the classification is mismatch.
\<close>

theorem C8_match_iff_above_threshold:
  "(confidenceTagClass (s\<lparr>matchConfidence := c, threshold := t\<rparr>) = ''match'') = (c > t)
   \<and> (confidenceTagClass (s\<lparr>matchConfidence := c, threshold := t\<rparr>) = ''mismatch'')
       = (c \<le> t)
   \<and> confidenceTagClass (s\<lparr>matchConfidence := t, threshold := t\<rparr>) = ''mismatch''"
  by (simp add: confidenceTagClass_def)

theorem C8_match_iff_above_threshold_witness:
  "confidenceTagClass (initial_page\<lparr>matchConfidence := 42, threshold := 50\<rparr>) = ''mismatch''
   \<and> confidenceTagClass (initial_page\<lparr>matchConfidence := 91, threshold := 80\<rparr>) = ''match''
   \<and> confidenceTagClass (initial_page\<lparr>matchConfidence := 50, threshold := 50\<rparr>) = ''mismatch''"
  using C8_match_iff_above_threshold [where s = initial_page and c = 42 and t = 50]
    C8_match_iff_above_threshold [where s = initial_page and c = 91 and t = 80]
    C8_match_iff_above_threshold [where s = initial_page and c = 50 and t = 50]
  by simp

subsection \<open>Saving\<close>

text \<open>
  Claim C9. If the user name or the password is empty, or the raw image is empty (or
  undefined), \<^verbatim>\<open>handleSave\<close> shows a validation warning, issues no backend command and
  changes nothing else. Otherwise it issues \<^verbatim>\<open>save_face_registration\<close> with the alias and
  the reference image, also when the alias is empty, in which case the name sent is the
  empty string.
\<close>

theorem C9_save_validation:
  "(username s = [] \<or> password s = [] \<longrightarrow>
      handleSave fmt reply s = s\<lparr>notices := notices s @ [MsgWarning warnCredentials]\<rparr>)
   \<and> (username s \<noteq> [] \<and> password s \<noteq> [] \<and> falsy (rawImageForSystem s) \<longrightarrow>
      handleSave fmt reply s = s\<lparr>notices := notices s @ [MsgWarning warnNoImage]\<rparr>)
   \<and> (username s = [] \<or> password s = [] \<or> falsy (rawImageForSystem s) \<longrightarrow>
      invoked (handleSave fmt reply s) = invoked s
      \<and> (\<exists>w. notices (handleSave fmt reply s) = notices s @ [MsgWarning w]))
   \<and> (username s \<noteq> [] \<and> password s \<noteq> [] \<and> rawImageForSystem s = Some raw \<and> raw \<noteq> []
        \<longrightarrow>
      invoked (handleSave fmt reply s)
        = invoked s @ [SaveFaceRegistration (faceName s) (referenceBase64 raw)]
      \<and> notices (handleSave fmt (Inr result) s) = notices s
      \<and> notices (handleSave fmt (Inl e) s) = notices s @ [MsgError (fmt (Rejection e))])
   \<and> (username s \<noteq> [] \<and> password s \<noteq> [] \<and> rawImageForSystem s = Some raw \<and> raw \<noteq> []
        \<and> faceName s = [] \<longrightarrow>
      invoked (handleSave fmt reply s)
        = invoked s @ [SaveFaceRegistration [] (referenceBase64 raw)])"
  by (cases "rawImageForSystem s")
    (auto simp add: handleSave_def effect_defs Let_def split: sum.splits)

theorem C9_save_validation_witness:
  "handleSave sample_format (Inr ()) captured_page
      = captured_page\<lparr>notices := [MsgWarning warnCredentials]\<rparr>
   \<and> handleSave sample_format (Inr ())
        (initial_page\<lparr>username := ''alice'', password := ''secret''\<rparr>)
      = initial_page\<lparr>username := ''alice'', password := ''secret'',
                     notices := [MsgWarning warnNoImage]\<rparr>
   \<and> invoked (handleSave sample_format (Inr ())
        (captured_page\<lparr>username := ''alice'', password := ''secret''\<rparr>))
      = [OpenCamera, CheckFaceFromCamera, StopCamera, SaveFaceRegistration [] (Some ''RRRR'')]
   \<and> notices (handleSave sample_format (Inr ())
        (captured_page\<lparr>username := ''alice'', password := ''secret''\<rparr>)) = []"
  using C9_save_validation [where fmt = sample_format and s = captured_page
      and reply = "Inr ()" and result = "()" and e = "''disk full''"
      and raw = "''data:image/jpeg;base64,RRRR''"]
    C9_save_validation [where fmt = sample_format and reply = "Inr ()" and result = "()"
      and e = "''disk full''" and raw = "[]"
      and s = "initial_page\<lparr>username := ''alice'', password := ''secret''\<rparr>"]
    C9_save_validation [where fmt = sample_format and reply = "Inr ()" and result = "()"
      and e = "''disk full''" and raw = "''data:image/jpeg;base64,RRRR''"
      and s = "captured_page\<lparr>username := ''alice'', password := ''secret''\<rparr>"]
  by (simp add: captured_page_eval initial_page_def referenceBase64_def handleSave_def
        effect_defs)

end
